theory Spec2Isabelle
  imports Complex_Main "HOL-Library.Multiset" "HOL-Library.Product_Lexorder"
begin

section \<open>Data model of \<^verbatim>\<open>Food_YOLO/shortpath.py\<close>\<close>

text \<open>
  Python floats are modelled as \<^typ>\<open>real\<close> (exact arithmetic, no NaN, no infinities, no
  rounding); Python ints as \<^typ>\<open>int\<close>; \<^verbatim>\<open>str\<close> as \<^typ>\<open>string\<close>.  Record fields keep
  the names of the dataclass fields, prefixed where the plain name is a HOL constant or
  is used by a second dataclass (\<^verbatim>\<open>id\<close>, \<^verbatim>\<open>name\<close>, \<^verbatim>\<open>type\<close>).

  What the reals leave out.  On doubles a sum is rounded at every step, so a running total
  such as the load of \<^verbatim>\<open>is_feasible\<close> can differ from the exact sum in the last place;
  \<^verbatim>\<open>math.sqrt\<close> and \<^verbatim>\<open>math.asin\<close> raise \<^verbatim>\<open>ValueError\<close> when rounding takes the haversine
  term out of [0, 1] or a coordinate is not finite; \<^verbatim>\<open>urgency_score\<close> raises
  \<^verbatim>\<open>OverflowError\<close> for a priority too large for a float.  None of these is a run of the
  model: where a statement below says that a builder returns, it is to be read for inputs
  on which the float arithmetic of the code raises none of these exceptions, and no
  statement below compares a sum of several quantities with a capacity.
\<close>

datatype GoodsType = FOOD | MEDICINE

record Location =
  loc_id :: string
  loc_name :: string
  latitude :: real
  longitude :: real
  loc_type :: string

record PerishableGoods =
  goods_id :: string
  goods_name :: string
  goods_type :: GoodsType
  quantity :: real
  pickup_location :: Location
  delivery_location :: Location
  time_to_expiry :: int
  priority :: int
  pickup_time_window :: "int \<times> int"

record Vehicle =
  vehicle_id :: string
  vehicle_name :: string
  capacity :: real
  current_location :: Location
  speed :: real

record RouteStop =
  location :: Location
  action :: string
  goods :: PerishableGoods
  arrival_time :: real
  estimated_duration :: real

record Route =
  vehicle :: Vehicle
  stops :: "RouteStop list"
  total_distance :: real
  total_time :: real
  goods_delivered :: "PerishableGoods list"

text \<open>The exception the model has: float division by zero, in the travel-time
  computation.  \<^verbatim>\<open>ValueError\<close> and \<^verbatim>\<open>OverflowError\<close> arise from float arithmetic only and
  are not values of the model.\<close>

datatype error = ZeroDivisionError

subsection \<open>\<^verbatim>\<open>Location.distance_to\<close>: haversine distance\<close>

definition radians :: "real \<Rightarrow> real" where
  "radians x = x * (pi / 180)"

definition haversine_a :: "Location \<Rightarrow> Location \<Rightarrow> real" where
  "haversine_a self other =
     (let lat1 = radians (latitude self); lon1 = radians (longitude self);
          lat2 = radians (latitude other); lon2 = radians (longitude other);
          dlat = lat2 - lat1;
          dlon = lon2 - lon1
      in (sin (dlat / 2))\<^sup>2 + cos lat1 * cos lat2 * (sin (dlon / 2))\<^sup>2)"

definition distance_to :: "Location \<Rightarrow> Location \<Rightarrow> real" where
  "distance_to self other =
     (let R = 6371;
          a = haversine_a self other;
          c = 2 * arcsin (sqrt a)
      in R * c)"

subsection \<open>\<^verbatim>\<open>PerishableGoods.urgency_score\<close>\<close>

definition urgency_score :: "PerishableGoods \<Rightarrow> real" where
  "urgency_score self =
     (let time_factor = 1000 / real_of_int (max (time_to_expiry self) 1);
          priority_factor = real_of_int ((6 - priority self) * 10)
      in time_factor + priority_factor)"

subsection \<open>\<^verbatim>\<open>Vehicle.travel_time\<close>\<close>

text \<open>\<^verbatim>\<open>(distance / self.speed) * 60\<close>: Python raises \<^verbatim>\<open>ZeroDivisionError\<close> when the
  speed is zero.\<close>

definition travel_time :: "Vehicle \<Rightarrow> Location \<Rightarrow> Location \<Rightarrow> error + real" where
  "travel_time self from_loc to_loc =
     (let distance = distance_to from_loc to_loc
      in if speed self = 0 then Inl ZeroDivisionError
         else Inr ((distance / speed self) * 60))"

subsection \<open>\<^verbatim>\<open>Route.is_feasible\<close> and \<^verbatim>\<open>Route.total_goods_saved\<close>\<close>

text \<open>The \<^verbatim>\<open>for\<close> loop of \<^verbatim>\<open>is_feasible\<close>, with the running load as an argument.  Any
  action other than \<^verbatim>\<open>'pickup'\<close> takes the \<^verbatim>\<open>else\<close> branch.  The load is the exact sum;
  the code's load is the rounded one.\<close>

fun is_feasible_loop :: "Vehicle \<Rightarrow> real \<Rightarrow> RouteStop list \<Rightarrow> bool \<times> string" where
  "is_feasible_loop v current_load [] = (True, ''Route is feasible'')"
| "is_feasible_loop v current_load (stop # rest) =
     (if action stop = ''pickup'' then
        (let current_load = current_load + quantity (goods stop)
         in if current_load > capacity v
            then (False, ''Capacity exceeded at '' @ loc_name (location stop))
            else is_feasible_loop v current_load rest)
      else
        (let current_load = current_load - quantity (goods stop)
         in if arrival_time stop > real_of_int (time_to_expiry (goods stop))
            then (False, goods_name (goods stop) @ '' expired before delivery'')
            else is_feasible_loop v current_load rest))"

definition is_feasible :: "Route \<Rightarrow> bool \<times> string" where
  "is_feasible self = is_feasible_loop (vehicle self) 0 (stops self)"

definition total_goods_saved :: "Route \<Rightarrow> real" where
  "total_goods_saved self = sum_list (map quantity (goods_delivered self))"

section \<open>The builders of \<^verbatim>\<open>LogisticsOptimizer\<close>\<close>

text \<open>
  The local variables of one planning run.  \<^verbatim>\<open>current_location\<close> of the source is
  \<open>cur_location\<close> here (the vehicle's dataclass field keeps the plain name);
  \<^verbatim>\<open>picked_up\<close> and \<^verbatim>\<open>delivered\<close> are Python sets of goods ids.
\<close>

record PlanState =
  route :: Route
  cur_location :: Location
  current_time :: real
  picked_up :: "string set"
  delivered :: "string set"

text \<open>\<^verbatim>\<open>Route(vehicle=self.vehicle)\<close> with the dataclass defaults.\<close>

definition new_route :: "Vehicle \<Rightarrow> Route" where
  "new_route v = \<lparr>vehicle = v, stops = [], total_distance = 0, total_time = 0,
                  goods_delivered = []\<rparr>"

definition initial_state :: "Vehicle \<Rightarrow> PlanState" where
  "initial_state v = \<lparr>route = new_route v, cur_location = current_location v,
                      current_time = 0, picked_up = {}, delivered = {}\<rparr>"

text \<open>
  The three variables \<^verbatim>\<open>best_score\<close> (or \<^verbatim>\<open>min_distance\<close>), \<^verbatim>\<open>best_action\<close>,
  \<^verbatim>\<open>best_goods\<close> are always assigned together; \<open>None\<close> is their initial value
  (\<^verbatim>\<open>float('-inf')\<close> or \<^verbatim>\<open>float('inf')\<close>, \<^verbatim>\<open>None\<close>, \<^verbatim>\<open>None\<close>).  Every real score is
  greater than \<^verbatim>\<open>-inf\<close>, every real distance is smaller than \<^verbatim>\<open>inf\<close> and than
  \<^verbatim>\<open>inf - 1\<close>.
\<close>

type_synonym candidate = "real \<times> string \<times> PerishableGoods"

subsection \<open>Committing a stop (lines 183--215 and 303--321)\<close>

text \<open>The two \<^verbatim>\<open>RouteStop(...)\<close> constructions; \<^verbatim>\<open>estimated_duration\<close> keeps its default
  of 15 minutes.\<close>

definition pickup_stop :: "PerishableGoods \<Rightarrow> real \<Rightarrow> RouteStop" where
  "pickup_stop best_goods t =
     \<lparr>location = pickup_location best_goods, action = ''pickup'', goods = best_goods,
      arrival_time = t, estimated_duration = 15\<rparr>"

definition delivery_stop :: "PerishableGoods \<Rightarrow> real \<Rightarrow> RouteStop" where
  "delivery_stop best_goods t =
     \<lparr>location = delivery_location best_goods, action = ''delivery'', goods = best_goods,
      arrival_time = t, estimated_duration = 15\<rparr>"

text \<open>The pickup branch, up to \<^verbatim>\<open>current_time += stop.estimated_duration\<close>; the two
  builders have the same statements here.\<close>

definition commit_pickup :: "Vehicle \<Rightarrow> PlanState \<Rightarrow> PerishableGoods \<Rightarrow> error + PlanState" where
  "commit_pickup v st best_goods =
     (case travel_time v (cur_location st) (pickup_location best_goods) of
        Inl e \<Rightarrow> Inl e
      | Inr tt \<Rightarrow>
          (let t = current_time st + tt;
               stop = pickup_stop best_goods t
           in Inr (st\<lparr>route := (route st)\<lparr>stops := stops (route st) @ [stop]\<rparr>,
                      picked_up := insert (goods_id best_goods) (picked_up st),
                      cur_location := pickup_location best_goods,
                      current_time := t + estimated_duration stop\<rparr>)))"

text \<open>The delivery branch.\<close>

definition commit_delivery :: "Vehicle \<Rightarrow> PlanState \<Rightarrow> PerishableGoods \<Rightarrow> error + PlanState" where
  "commit_delivery v st best_goods =
     (case travel_time v (cur_location st) (delivery_location best_goods) of
        Inl e \<Rightarrow> Inl e
      | Inr tt \<Rightarrow>
          (let t = current_time st + tt;
               stop = delivery_stop best_goods t
           in Inr (st\<lparr>route := (route st)\<lparr>stops := stops (route st) @ [stop],
                                          goods_delivered :=
                                            goods_delivered (route st) @ [best_goods]\<rparr>,
                      delivered := insert (goods_id best_goods) (delivered st),
                      cur_location := delivery_location best_goods,
                      current_time := t + estimated_duration stop\<rparr>)))"

text \<open>Line 198, the last statement of the greedy builder's pickup branch.  It runs after
  \<^verbatim>\<open>current_location\<close> has been moved to the stop: \<^verbatim>\<open>stop\<close> is the stop just
  appended.\<close>

definition add_distance :: "Vehicle \<Rightarrow> PlanState \<Rightarrow> PlanState" where
  "add_distance v st =
     (let stop = last (stops (route st));
          d = (if length (stops (route st)) = 1
               then distance_to (current_location v) (cur_location st)
               else distance_to (location stop) (cur_location st))
      in st\<lparr>route := (route st)\<lparr>total_distance := total_distance (route st) + d\<rparr>\<rparr>)"

subsection \<open>\<^verbatim>\<open>optimize_route\<close>: the greedy builder\<close>

text \<open>The body of the \<^verbatim>\<open>for goods in sorted_goods\<close> loop (lines 145--176).\<close>

definition greedy_consider ::
  "Vehicle \<Rightarrow> PlanState \<Rightarrow> candidate option \<Rightarrow> PerishableGoods \<Rightarrow> error + candidate option" where
  "greedy_consider v st best g =
     (if goods_id g \<in> delivered st then Inr best
      else if goods_id g \<notin> picked_up st then
        (case travel_time v (cur_location st) (pickup_location g) of
           Inl e \<Rightarrow> Inl e
         | Inr tt \<Rightarrow>
             (let arrival = current_time st + tt
              in if arrival \<le> real_of_int (snd (pickup_time_window g)) then
                   (let score = urgency_score g - (tt * 0.5)
                    in if (case best of None \<Rightarrow> True | Some (best_score, _, _) \<Rightarrow> score > best_score)
                       then Inr (Some (score, ''pickup'', g))
                       else Inr best)
                 else Inr best))
      else
        (case travel_time v (cur_location st) (delivery_location g) of
           Inl e \<Rightarrow> Inl e
         | Inr tt \<Rightarrow>
             (let arrival = current_time st + tt
              in if arrival \<le> real_of_int (time_to_expiry g) then
                   (let score = urgency_score g + 50 - (tt * 0.3)
                    in if (case best of None \<Rightarrow> True | Some (best_score, _, _) \<Rightarrow> score > best_score)
                       then Inr (Some (score, ''delivery'', g))
                       else Inr best)
                 else Inr best)))"

fun greedy_scan ::
  "Vehicle \<Rightarrow> PlanState \<Rightarrow> candidate option \<Rightarrow> PerishableGoods list \<Rightarrow> error + candidate option" where
  "greedy_scan v st best [] = Inr best"
| "greedy_scan v st best (g # gs) =
     (case greedy_consider v st best g of
        Inl e \<Rightarrow> Inl e
      | Inr best' \<Rightarrow> greedy_scan v st best' gs)"

text \<open>One iteration of the \<^verbatim>\<open>while\<close> loop: \<open>Inr None\<close> is the \<^verbatim>\<open>break\<close>.\<close>

definition greedy_step ::
  "Vehicle \<Rightarrow> PerishableGoods list \<Rightarrow> PlanState \<Rightarrow> error + PlanState option" where
  "greedy_step v sorted_goods st =
     (case greedy_scan v st None sorted_goods of
        Inl e \<Rightarrow> Inl e
      | Inr None \<Rightarrow> Inr None
      | Inr (Some (best_score, best_action, best_goods)) \<Rightarrow>
          (if best_action = ''pickup'' then
             (case commit_pickup v st best_goods of
                Inl e \<Rightarrow> Inl e
              | Inr st' \<Rightarrow> Inr (Some (add_distance v st')))
           else
             (case commit_delivery v st best_goods of
                Inl e \<Rightarrow> Inl e
              | Inr st' \<Rightarrow> Inr (Some st'))))"

subsection \<open>\<^verbatim>\<open>_optimize_by_distance\<close>: the nearest-action builder\<close>

text \<open>The body of the \<^verbatim>\<open>for goods in goods_list\<close> loop (lines 277--298).  The travel
  time is computed in line, \<^verbatim>\<open>(distance / self.vehicle.speed) * 60\<close>.\<close>

definition nearest_consider ::
  "Vehicle \<Rightarrow> PlanState \<Rightarrow> candidate option \<Rightarrow> PerishableGoods \<Rightarrow> error + candidate option" where
  "nearest_consider v st best g =
     (if goods_id g \<in> delivered st then Inr best
      else if goods_id g \<notin> picked_up st then
        (let distance = distance_to (cur_location st) (pickup_location g)
         in if speed v = 0 then Inl ZeroDivisionError
            else
              (let tt = (distance / speed v) * 60
               in if current_time st + tt \<le> real_of_int (snd (pickup_time_window g)) then
                    (if (case best of None \<Rightarrow> True
                         | Some (min_distance, _, _) \<Rightarrow> distance < min_distance)
                     then Inr (Some (distance, ''pickup'', g))
                     else Inr best)
                  else Inr best))
      else
        (let distance = distance_to (cur_location st) (delivery_location g)
         in if speed v = 0 then Inl ZeroDivisionError
            else
              (let tt = (distance / speed v) * 60
               in if current_time st + tt \<le> real_of_int (time_to_expiry g) then
                    (if (case best of None \<Rightarrow> True
                         | Some (min_distance, _, _) \<Rightarrow> distance < min_distance - 1)
                     then Inr (Some (distance, ''delivery'', g))
                     else Inr best)
                  else Inr best)))"

fun nearest_scan ::
  "Vehicle \<Rightarrow> PlanState \<Rightarrow> candidate option \<Rightarrow> PerishableGoods list \<Rightarrow> error + candidate option" where
  "nearest_scan v st best [] = Inr best"
| "nearest_scan v st best (g # gs) =
     (case nearest_consider v st best g of
        Inl e \<Rightarrow> Inl e
      | Inr best' \<Rightarrow> nearest_scan v st best' gs)"

definition nearest_step ::
  "Vehicle \<Rightarrow> PerishableGoods list \<Rightarrow> PlanState \<Rightarrow> error + PlanState option" where
  "nearest_step v goods_list st =
     (case nearest_scan v st None goods_list of
        Inl e \<Rightarrow> Inl e
      | Inr None \<Rightarrow> Inr None
      | Inr (Some (min_distance, best_action, best_goods)) \<Rightarrow>
          (if best_action = ''pickup'' then
             (case commit_pickup v st best_goods of
                Inl e \<Rightarrow> Inl e
              | Inr st' \<Rightarrow> Inr (Some st'))
           else
             (case commit_delivery v st best_goods of
                Inl e \<Rightarrow> Inl e
              | Inr st' \<Rightarrow> Inr (Some st'))))"

subsection \<open>Termination of the \<^verbatim>\<open>while\<close> loops\<close>

text \<open>What holds of a candidate that a scan returns: its item is in the scanned list and
  not yet delivered; a pickup candidate is not yet picked up; a delivery candidate is
  picked up and was eligible (its arrival is not after its expiry).\<close>

definition cand_ok :: "PerishableGoods set \<Rightarrow> Vehicle \<Rightarrow> PlanState \<Rightarrow> candidate \<Rightarrow> bool" where
  "cand_ok S v st c =
     (case c of (sc, act, g) \<Rightarrow>
        g \<in> S \<and> goods_id g \<notin> delivered st \<and> speed v \<noteq> 0 \<and>
        (if act = ''pickup'' then goods_id g \<notin> picked_up st
         else act = ''delivery'' \<and> goods_id g \<in> picked_up st \<and>
              current_time st + distance_to (cur_location st) (delivery_location g) / speed v * 60
                \<le> real_of_int (time_to_expiry g)))"

lemma greedy_consider_ok:
  assumes "greedy_consider v st best g = Inr (Some c)"
    and "\<And>c'. best = Some c' \<Longrightarrow> cand_ok S v st c'"
    and "g \<in> S"
  shows "cand_ok S v st c"
  using assms
  by (auto simp: greedy_consider_def travel_time_def cand_ok_def Let_def
           split: if_splits sum.splits option.splits)

lemma greedy_scan_ok:
  assumes "greedy_scan v st best gl = Inr (Some c)"
    and "\<And>c'. best = Some c' \<Longrightarrow> cand_ok S v st c'"
    and "set gl \<subseteq> S"
  shows "cand_ok S v st c"
  using assms
proof (induction gl arbitrary: best)
  case Nil
  then show ?case by simp
next
  case (Cons g gl)
  from Cons.prems(1) obtain b where b: "greedy_consider v st best g = Inr b"
    and r: "greedy_scan v st b gl = Inr (Some c)"
    by (auto split: sum.splits)
  have "\<And>c'. b = Some c' \<Longrightarrow> cand_ok S v st c'"
    using greedy_consider_ok[of v st best g _ S] b Cons.prems(2,3) by auto
  with Cons.IH[OF r] Cons.prems(3) show ?case by auto
qed

definition plan_measure :: "PerishableGoods list \<Rightarrow> PlanState \<Rightarrow> nat" where
  "plan_measure gl st =
     card (goods_id ` set gl - picked_up st) + card (goods_id ` set gl - delivered st)"

lemma card_Diff_insert_less:
  assumes "finite A" "x \<in> A" "x \<notin> B"
  shows "card (A - insert x B) < card (A - B)"
proof -
  have "A - insert x B = (A - B) - {x}" by auto
  moreover have "x \<in> A - B" using assms by auto
  ultimately show ?thesis using assms(1)
    by (metis card_Diff1_less finite_Diff)
qed

lemma greedy_step_measure:
  assumes "greedy_step v gl st = Inr (Some st')"
  shows "plan_measure gl st' < plan_measure gl st"
proof -
  from assms obtain sc act g where s: "greedy_scan v st None gl = Inr (Some (sc, act, g))"
    by (auto simp: greedy_step_def split: sum.splits option.splits prod.splits)
  have ok: "cand_ok (set gl) v st (sc, act, g)"
    using greedy_scan_ok[OF s] by simp
  show ?thesis
  proof (cases "act = ''pickup''")
    case True
    with assms s obtain st1 where c: "commit_pickup v st g = Inr st1" and e: "st' = add_distance v st1"
      by (auto simp: greedy_step_def split: sum.splits)
    from c have "picked_up st1 = insert (goods_id g) (picked_up st)" "delivered st1 = delivered st"
      by (auto simp: commit_pickup_def pickup_stop_def Let_def split: sum.splits)
    with e have "picked_up st' = insert (goods_id g) (picked_up st)" "delivered st' = delivered st"
      by (auto simp: add_distance_def Let_def)
    moreover have "card (goods_id ` set gl - insert (goods_id g) (picked_up st))
        < card (goods_id ` set gl - picked_up st)"
      using ok True by (intro card_Diff_insert_less) (auto simp: cand_ok_def)
    ultimately show ?thesis by (simp add: plan_measure_def)
  next
    case False
    with assms s obtain c: "commit_delivery v st g = Inr st'"
      by (auto simp: greedy_step_def split: sum.splits)
    from c have "picked_up st' = picked_up st" "delivered st' = insert (goods_id g) (delivered st)"
      by (auto simp: commit_delivery_def delivery_stop_def Let_def split: sum.splits)
    moreover have "card (goods_id ` set gl - insert (goods_id g) (delivered st))
        < card (goods_id ` set gl - delivered st)"
      using ok by (intro card_Diff_insert_less) (auto simp: cand_ok_def)
    ultimately show ?thesis by (simp add: plan_measure_def)
  qed
qed

lemma nearest_consider_ok:
  assumes "nearest_consider v st best g = Inr (Some c)"
    and "\<And>c'. best = Some c' \<Longrightarrow> cand_ok S v st c'"
    and "g \<in> S"
  shows "cand_ok S v st c"
  using assms
  by (auto simp: nearest_consider_def cand_ok_def Let_def
           split: if_splits sum.splits option.splits)

lemma nearest_scan_ok:
  assumes "nearest_scan v st best gl = Inr (Some c)"
    and "\<And>c'. best = Some c' \<Longrightarrow> cand_ok S v st c'"
    and "set gl \<subseteq> S"
  shows "cand_ok S v st c"
  using assms
proof (induction gl arbitrary: best)
  case Nil
  then show ?case by simp
next
  case (Cons g gl)
  from Cons.prems(1) obtain b where b: "nearest_consider v st best g = Inr b"
    and r: "nearest_scan v st b gl = Inr (Some c)"
    by (auto split: sum.splits)
  have "\<And>c'. b = Some c' \<Longrightarrow> cand_ok S v st c'"
    using nearest_consider_ok[of v st best g _ S] b Cons.prems(2,3) by auto
  with Cons.IH[OF r] Cons.prems(3) show ?case by auto
qed

lemma nearest_step_measure:
  assumes "nearest_step v gl st = Inr (Some st')"
  shows "plan_measure gl st' < plan_measure gl st"
proof -
  from assms obtain sc act g where s: "nearest_scan v st None gl = Inr (Some (sc, act, g))"
    by (auto simp: nearest_step_def split: sum.splits option.splits prod.splits)
  have ok: "cand_ok (set gl) v st (sc, act, g)"
    using nearest_scan_ok[OF s] by simp
  show ?thesis
  proof (cases "act = ''pickup''")
    case True
    with assms s obtain c: "commit_pickup v st g = Inr st'"
      by (auto simp: nearest_step_def split: sum.splits)
    from c have "picked_up st' = insert (goods_id g) (picked_up st)" "delivered st' = delivered st"
      by (auto simp: commit_pickup_def pickup_stop_def Let_def split: sum.splits)
    moreover have "card (goods_id ` set gl - insert (goods_id g) (picked_up st))
        < card (goods_id ` set gl - picked_up st)"
      using ok True by (intro card_Diff_insert_less) (auto simp: cand_ok_def)
    ultimately show ?thesis by (simp add: plan_measure_def)
  next
    case False
    with assms s obtain c: "commit_delivery v st g = Inr st'"
      by (auto simp: nearest_step_def split: sum.splits)
    from c have "picked_up st' = picked_up st" "delivered st' = insert (goods_id g) (delivered st)"
      by (auto simp: commit_delivery_def delivery_stop_def Let_def split: sum.splits)
    moreover have "card (goods_id ` set gl - insert (goods_id g) (delivered st))
        < card (goods_id ` set gl - delivered st)"
      using ok by (intro card_Diff_insert_less) (auto simp: cand_ok_def)
    ultimately show ?thesis by (simp add: plan_measure_def)
  qed
qed

subsection \<open>The loops and the builders\<close>

function greedy_loop :: "Vehicle \<Rightarrow> PerishableGoods list \<Rightarrow> PlanState \<Rightarrow> error + PlanState" where
  "greedy_loop v sorted_goods st =
     (if card (delivered st) < length sorted_goods then
        (case greedy_step v sorted_goods st of
           Inl e \<Rightarrow> Inl e
         | Inr None \<Rightarrow> Inr st
         | Inr (Some st') \<Rightarrow> greedy_loop v sorted_goods st')
      else Inr st)"
  by pat_completeness auto
termination
  by (relation "measure (\<lambda>(v, gl, st). plan_measure gl st)") (auto simp: greedy_step_measure)

text \<open>\<^verbatim>\<open>sorted(xs, key=f, reverse=True)\<close>: CPython reverses the list, sorts it stably in
  ascending key order and reverses it again, so that items with equal keys keep their
  input order.\<close>

definition sorted_reverse :: "('a \<Rightarrow> 'k::linorder) \<Rightarrow> 'a list \<Rightarrow> 'a list" where
  "sorted_reverse f xs = rev (sort_key f (rev xs))"

definition optimize_route :: "Vehicle \<Rightarrow> PerishableGoods list \<Rightarrow> error + Route" where
  "optimize_route v goods_list =
     (if goods_list = [] then Inr (new_route v)
      else
        (let sorted_goods = sorted_reverse urgency_score goods_list
         in case greedy_loop v sorted_goods (initial_state v) of
              Inl e \<Rightarrow> Inl e
            | Inr st \<Rightarrow> Inr ((route st)\<lparr>total_time := current_time st\<rparr>)))"

function nearest_loop :: "Vehicle \<Rightarrow> PerishableGoods list \<Rightarrow> PlanState \<Rightarrow> error + PlanState" where
  "nearest_loop v goods_list st =
     (if card (delivered st) < length goods_list then
        (case nearest_step v goods_list st of
           Inl e \<Rightarrow> Inl e
         | Inr None \<Rightarrow> Inr st
         | Inr (Some st') \<Rightarrow> nearest_loop v goods_list st')
      else Inr st)"
  by pat_completeness auto
termination
  by (relation "measure (\<lambda>(v, gl, st). plan_measure gl st)") (auto simp: nearest_step_measure)

definition optimize_by_distance :: "Vehicle \<Rightarrow> PerishableGoods list \<Rightarrow> error + Route" where
  "optimize_by_distance v goods_list =
     (case nearest_loop v goods_list (initial_state v) of
        Inl e \<Rightarrow> Inl e
      | Inr st \<Rightarrow> Inr ((route st)\<lparr>total_time := current_time st\<rparr>))"

subsection \<open>\<^verbatim>\<open>_optimize_by_time_window\<close>: the deadline-ordered builder\<close>

definition optimize_by_time_window :: "Vehicle \<Rightarrow> PerishableGoods list \<Rightarrow> error + Route" where
  "optimize_by_time_window v goods_list =
     (let sorted_goods =
            sort_key (\<lambda>g. (time_to_expiry g, snd (pickup_time_window g))) goods_list
      in optimize_route v sorted_goods)"

subsection \<open>\<^verbatim>\<open>find_k_shortest_routes\<close>: the ensemble selector\<close>

text \<open>\<^verbatim>\<open>routes[:k]\<close>: a negative \<^verbatim>\<open>k\<close> counts from the end of the list.\<close>

definition slice_to :: "int \<Rightarrow> 'a list \<Rightarrow> 'a list" where
  "slice_to k xs = (if 0 \<le> k then take (nat k) xs else take (length xs - nat (- k)) xs)"

text \<open>Dataclass equality compares all five fields of \<^verbatim>\<open>Route\<close>, as HOL's equality on
  the record does.\<close>

definition find_k_shortest_routes ::
  "Vehicle \<Rightarrow> PerishableGoods list \<Rightarrow> int \<Rightarrow> error + Route list" where
  "find_k_shortest_routes v goods_list k =
     (case optimize_route v goods_list of
        Inl e \<Rightarrow> Inl e
      | Inr route1 \<Rightarrow>
          (let routes = (if stops route1 \<noteq> [] then [route1] else [])
           in case optimize_by_distance v goods_list of
                Inl e \<Rightarrow> Inl e
              | Inr route2 \<Rightarrow>
                  (let routes = (if stops route2 \<noteq> [] \<and> route2 \<noteq> route1
                                 then routes @ [route2] else routes)
                   in case optimize_by_time_window v goods_list of
                        Inl e \<Rightarrow> Inl e
                      | Inr route3 \<Rightarrow>
                          (let routes = (if stops route3 \<noteq> [] \<and> route3 \<notin> set routes
                                         then routes @ [route3] else routes);
                               routes = sorted_reverse
                                          (\<lambda>r. (total_goods_saved r, - total_time r)) routes
                           in Inr (slice_to k routes)))))"

section \<open>Notions for the statements about routes\<close>

text \<open>The pickup stops and the delivery stops of a stop sequence, the item id of a stop,
  and the property that every delivery stop comes after a pickup stop of the same item
  id.\<close>

definition pickups :: "RouteStop list \<Rightarrow> RouteStop list" where
  "pickups ss = filter (\<lambda>s. action s = ''pickup'') ss"

definition deliveries :: "RouteStop list \<Rightarrow> RouteStop list" where
  "deliveries ss = filter (\<lambda>s. action s = ''delivery'') ss"

definition stop_id :: "RouteStop \<Rightarrow> string" where
  "stop_id s = goods_id (goods s)"

definition pickup_first :: "RouteStop list \<Rightarrow> bool" where
  "pickup_first ss =
     (\<forall>j < length ss. action (ss ! j) = ''delivery'' \<longrightarrow>
        (\<exists>i < j. action (ss ! i) = ''pickup'' \<and> stop_id (ss ! i) = stop_id (ss ! j)))"

text \<open>The \<^verbatim>\<open>while\<close> loops with a budget of iterations: \<open>None\<close> when the budget is used up
  before the loop has ended, otherwise what the loop ends with, an exception or the final
  state.\<close>

fun greedy_loop_fuel ::
  "nat \<Rightarrow> Vehicle \<Rightarrow> PerishableGoods list \<Rightarrow> PlanState \<Rightarrow> (error + PlanState) option" where
  "greedy_loop_fuel 0 v sorted_goods st = None"
| "greedy_loop_fuel (Suc n) v sorted_goods st =
     (if card (delivered st) < length sorted_goods then
        (case greedy_step v sorted_goods st of
           Inl e \<Rightarrow> Some (Inl e)
         | Inr None \<Rightarrow> Some (Inr st)
         | Inr (Some st') \<Rightarrow> greedy_loop_fuel n v sorted_goods st')
      else Some (Inr st))"

fun nearest_loop_fuel ::
  "nat \<Rightarrow> Vehicle \<Rightarrow> PerishableGoods list \<Rightarrow> PlanState \<Rightarrow> (error + PlanState) option" where
  "nearest_loop_fuel 0 v goods_list st = None"
| "nearest_loop_fuel (Suc n) v goods_list st =
     (if card (delivered st) < length goods_list then
        (case nearest_step v goods_list st of
           Inl e \<Rightarrow> Some (Inl e)
         | Inr None \<Rightarrow> Some (Inr st)
         | Inr (Some st') \<Rightarrow> nearest_loop_fuel n v goods_list st')
      else Some (Inr st))"

text \<open>The invariant of both \<^verbatim>\<open>while\<close> loops.\<close>

definition plan_inv :: "PerishableGoods set \<Rightarrow> Vehicle \<Rightarrow> PlanState \<Rightarrow> bool" where
  "plan_inv S v st =
     (let ss = stops (route st) in
      vehicle (route st) = v \<and>
      (\<forall>s \<in> set ss. goods s \<in> S \<and> (action s = ''pickup'' \<or> action s = ''delivery'')) \<and>
      picked_up st = stop_id ` set (pickups ss) \<and>
      delivered st = stop_id ` set (deliveries ss) \<and>
      distinct (map stop_id (pickups ss)) \<and>
      distinct (map stop_id (deliveries ss)) \<and>
      pickup_first ss \<and>
      (\<forall>s \<in> set ss. action s = ''delivery'' \<longrightarrow>
           arrival_time s \<le> real_of_int (time_to_expiry (goods s))) \<and>
      goods_delivered (route st) = map goods (deliveries ss) \<and>
      current_time st = (if ss = [] then 0 else arrival_time (last ss) + 15))"

text \<open>A route that one of the three builders returns for the goods list.\<close>

definition built :: "Vehicle \<Rightarrow> PerishableGoods list \<Rightarrow> Route \<Rightarrow> bool" where
  "built v gl r =
     (optimize_route v gl = Inr r \<or> optimize_by_distance v gl = Inr r
      \<or> optimize_by_time_window v gl = Inr r)"

section \<open>The scenario of the specification\<close>

text \<open>One vehicle (capacity 100, 40 km/h) at A; one item (quantity 30, pickup at A,
  delivery at B, 20 km from A, expiry after 60 minutes, pickup window [0, 120]).  B lies
  on the equator, \<open>20 / 6371\<close> radians east of A.\<close>

definition loc_A :: Location where
  "loc_A = \<lparr>loc_id = ''A'', loc_name = ''A'', latitude = 0, longitude = 0,
            loc_type = ''donor''\<rparr>"

definition loc_B :: Location where
  "loc_B = \<lparr>loc_id = ''B'', loc_name = ''B'', latitude = 0, longitude = 3600 / (6371 * pi),
            loc_type = ''shelter''\<rparr>"

definition scenario_vehicle :: Vehicle where
  "scenario_vehicle = \<lparr>vehicle_id = ''V1'', vehicle_name = ''van'', capacity = 100,
                        current_location = loc_A, speed = 40\<rparr>"

definition scenario_goods :: PerishableGoods where
  "scenario_goods = \<lparr>goods_id = ''G1'', goods_name = ''milk'', goods_type = FOOD,
                      quantity = 30, pickup_location = loc_A, delivery_location = loc_B,
                      time_to_expiry = 60, priority = 1, pickup_time_window = (0, 120)\<rparr>"

text \<open>The route of the scenario: pickup at A on arrival at time 0, 15 minutes of service,
  30 minutes of travel, delivery at B at time 45, 15 minutes of service.\<close>

definition scenario_route :: Route where
  "scenario_route =
     \<lparr>vehicle = scenario_vehicle,
      stops = [pickup_stop scenario_goods 0, delivery_stop scenario_goods 45],
      total_distance = 0, total_time = 60, goods_delivered = [scenario_goods]\<rparr>"




text \<open>A vehicle too small for the item of the scenario.\<close>

definition small_vehicle :: Vehicle where
  "small_vehicle = \<lparr>vehicle_id = ''V4'', vehicle_name = ''bike'', capacity = 20,
                     current_location = loc_A, speed = 40\<rparr>"

text \<open>The state of the scenario's run after the first iteration of the loop.\<close>

definition scenario_state1 :: PlanState where
  "scenario_state1 =
     \<lparr>route = \<lparr>vehicle = scenario_vehicle, stops = [pickup_stop scenario_goods 0],
               total_distance = 0, total_time = 0, goods_delivered = []\<rparr>,
      cur_location = loc_A, current_time = 15, picked_up = {''G1''}, delivered = {}\<rparr>"

text \<open>An item that waits at B, 20 km from the vehicle, and is to be delivered at A.\<close>

definition remote_goods :: PerishableGoods where
  "remote_goods = \<lparr>goods_id = ''G3'', goods_name = ''insulin'', goods_type = MEDICINE,
                    quantity = 30, pickup_location = loc_B, delivery_location = loc_A,
                    time_to_expiry = 120, priority = 1, pickup_time_window = (0, 120)\<rparr>"

text \<open>The routes of the greedy and of the nearest-action builder for it: the same stops,
  another \<^verbatim>\<open>total_distance\<close>.\<close>

definition remote_route_greedy :: Route where
  "remote_route_greedy =
     \<lparr>vehicle = scenario_vehicle,
      stops = [pickup_stop remote_goods 30, delivery_stop remote_goods 75],
      total_distance = 20, total_time = 90, goods_delivered = [remote_goods]\<rparr>"

definition remote_route_nearest :: Route where
  "remote_route_nearest =
     \<lparr>vehicle = scenario_vehicle,
      stops = [pickup_stop remote_goods 30, delivery_stop remote_goods 75],
      total_distance = 0, total_time = 90, goods_delivered = [remote_goods]\<rparr>"

section \<open>Recomputation of the cached fields\<close>

text \<open>Recomputing the cached fields of a route from its stop sequence, as the
  specification words it: the distance is the sum of the legs from the vehicle's start
  location through every stop in order, the elapsed time is the end of the last stop's
  service, the delivered goods are the items of the delivery stops in order.\<close>

fun recomputed_distance :: "Location \<Rightarrow> RouteStop list \<Rightarrow> real" where
  "recomputed_distance start [] = 0"
| "recomputed_distance start (s # ss) =
     distance_to start (location s) + recomputed_distance (location s) ss"

definition recomputed_time :: "RouteStop list \<Rightarrow> real" where
  "recomputed_time ss = (if ss = [] then 0 else arrival_time (last ss) + 15)"

definition recomputed_delivered :: "RouteStop list \<Rightarrow> PerishableGoods list" where
  "recomputed_delivered ss = map goods (deliveries ss)"

section \<open>Changing the open bound of a pickup window\<close>

text \<open>An item whose pickup window opens at minute 100, waiting where the vehicle
  stands.\<close>

definition early_goods :: PerishableGoods where
  "early_goods = \<lparr>goods_id = ''G4'', goods_name = ''soup'', goods_type = FOOD,
                   quantity = 30, pickup_location = loc_A, delivery_location = loc_B,
                   time_to_expiry = 60, priority = 1, pickup_time_window = (100, 120)\<rparr>"

text \<open>Giving every item another open bound of its pickup window, and the same change on
  the items recorded in a route and in a candidate.\<close>

definition set_window_open :: "(PerishableGoods \<Rightarrow> int) \<Rightarrow> PerishableGoods \<Rightarrow> PerishableGoods" where
  "set_window_open f g = g\<lparr>pickup_time_window := (f g, snd (pickup_time_window g))\<rparr>"

definition retag_stop :: "(PerishableGoods \<Rightarrow> PerishableGoods) \<Rightarrow> RouteStop \<Rightarrow> RouteStop" where
  "retag_stop h s = s\<lparr>goods := h (goods s)\<rparr>"

definition retag :: "(PerishableGoods \<Rightarrow> PerishableGoods) \<Rightarrow> Route \<Rightarrow> Route" where
  "retag h r = r\<lparr>stops := map (retag_stop h) (stops r),
                 goods_delivered := map h (goods_delivered r)\<rparr>"

definition retag_candidate :: "(PerishableGoods \<Rightarrow> PerishableGoods) \<Rightarrow> candidate \<Rightarrow> candidate" where
  "retag_candidate h c = (case c of (sc, act, g) \<Rightarrow> (sc, act, h g))"

text \<open>Giving the vehicle another capacity and every item another quantity and another open
  bound of its pickup window, and the same change on a route and on a planning state.\<close>

definition set_unread ::
  "(PerishableGoods \<Rightarrow> real) \<Rightarrow> (PerishableGoods \<Rightarrow> int) \<Rightarrow> PerishableGoods \<Rightarrow> PerishableGoods" where
  "set_unread q opn g =
     g\<lparr>quantity := q g, pickup_time_window := (opn g, snd (pickup_time_window g))\<rparr>"

definition replan :: "real \<Rightarrow> (PerishableGoods \<Rightarrow> PerishableGoods) \<Rightarrow> Route \<Rightarrow> Route" where
  "replan c h r = (retag h r)\<lparr>vehicle := (vehicle r)\<lparr>capacity := c\<rparr>\<rparr>"

definition replan_state ::
  "real \<Rightarrow> (PerishableGoods \<Rightarrow> PerishableGoods) \<Rightarrow> PlanState \<Rightarrow> PlanState" where
  "replan_state c h st = st\<lparr>route := replan c h (route st)\<rparr>"

section \<open>The replacement rules in the words of the specification\<close>













section \<open>Distances\<close>

lemma distance_to_self: "distance_to p p = 0"
  by (simp add: distance_to_def haversine_a_def)

lemma distance_A_B: "distance_to loc_A loc_B = 20"
proof -
  have r: "radians (3600 / (6371 * pi)) = 20 / 6371"
    by (simp add: radians_def)
  have a: "haversine_a loc_A loc_B = (sin (10 / 6371))\<^sup>2"
    by (simp add: haversine_a_def loc_A_def loc_B_def r radians_def)
  have p: "(10::real) / 6371 \<le> pi / 2" using pi_ge_two by simp
  have s: "0 \<le> sin (10 / 6371 :: real)"
    by (rule sin_ge_zero) (use p pi_ge_two in simp_all)
  have "arcsin (sin (10 / 6371 :: real)) = 10 / 6371"
    by (rule arcsin_sin) (use p pi_ge_two in simp_all)
  with a s show ?thesis
    by (simp add: distance_to_def)
qed

section \<open>The loop invariant\<close>

declare greedy_loop.simps [simp del] nearest_loop.simps [simp del]

lemma plan_inv_initial: "plan_inv S v (initial_state v)"
  by (simp add: plan_inv_def initial_state_def new_route_def pickups_def deliveries_def
      pickup_first_def)

lemma pickup_first_snoc_pickup:
  assumes "pickup_first ss" "action s = ''pickup''"
  shows "pickup_first (ss @ [s])"
  unfolding pickup_first_def
proof (intro allI impI)
  fix j assume j: "j < length (ss @ [s])" and d: "action ((ss @ [s]) ! j) = ''delivery''"
  have "j < length ss"
  proof (rule ccontr)
    assume "\<not> j < length ss"
    with j have "j = length ss" by simp
    with d assms(2) show False by simp
  qed
  with d have "action (ss ! j) = ''delivery''" by (simp add: nth_append)
  with assms(1) \<open>j < length ss\<close> obtain i where "i < j" "action (ss ! i) = ''pickup''"
    "stop_id (ss ! i) = stop_id (ss ! j)"
    unfolding pickup_first_def by blast
  with \<open>j < length ss\<close> show "\<exists>i<j. action ((ss @ [s]) ! i) = ''pickup'' \<and>
      stop_id ((ss @ [s]) ! i) = stop_id ((ss @ [s]) ! j)"
    by (intro exI[of _ i]) (simp add: nth_append)
qed

lemma pickup_first_snoc_delivery:
  assumes "pickup_first ss" "stop_id s \<in> stop_id ` set (pickups ss)"
  shows "pickup_first (ss @ [s])"
  unfolding pickup_first_def
proof (intro allI impI)
  fix j assume j: "j < length (ss @ [s])" and d: "action ((ss @ [s]) ! j) = ''delivery''"
  show "\<exists>i<j. action ((ss @ [s]) ! i) = ''pickup'' \<and>
      stop_id ((ss @ [s]) ! i) = stop_id ((ss @ [s]) ! j)"
  proof (cases "j < length ss")
    case True
    with d have "action (ss ! j) = ''delivery''" by (simp add: nth_append)
    with assms(1) True obtain i where "i < j" "action (ss ! i) = ''pickup''"
      "stop_id (ss ! i) = stop_id (ss ! j)"
      unfolding pickup_first_def by blast
    with True show ?thesis
      by (intro exI[of _ i]) (simp add: nth_append)
  next
    case False
    with j have jl: "j = length ss" by simp
    from assms(2) obtain p where p: "p \<in> set ss" "action p = ''pickup''" "stop_id p = stop_id s"
      by (auto simp: pickups_def)
    then obtain i where "i < length ss" "ss ! i = p"
      by (auto simp: in_set_conv_nth)
    with p jl show ?thesis
      by (intro exI[of _ i]) (simp add: nth_append)
  qed
qed

lemma pickups_snoc:
  "pickups (ss @ [s]) = (if action s = ''pickup'' then pickups ss @ [s] else pickups ss)"
  by (simp add: pickups_def)

lemma deliveries_snoc:
  "deliveries (ss @ [s]) = (if action s = ''delivery'' then deliveries ss @ [s] else deliveries ss)"
  by (simp add: deliveries_def)

lemma plan_inv_snoc:
  assumes inv: "plan_inv S v st"
    and g: "goods s \<in> S"
    and act: "action s = ''pickup'' \<and> stop_id s \<notin> picked_up st \<and> pu = insert (stop_id s) (picked_up st)
                \<and> de = delivered st \<and> gd = goods_delivered (route st)
           \<or> action s = ''delivery'' \<and> stop_id s \<notin> delivered st \<and> stop_id s \<in> picked_up st
                \<and> arrival_time s \<le> real_of_int (time_to_expiry (goods s))
                \<and> pu = picked_up st \<and> de = insert (stop_id s) (delivered st)
                \<and> gd = goods_delivered (route st) @ [goods s]"
    and t: "t = arrival_time s + 15"
  shows "plan_inv S v (st\<lparr>route := (route st)\<lparr>stops := stops (route st) @ [s],
                                              goods_delivered := gd\<rparr>,
                          picked_up := pu, delivered := de,
                          cur_location := l, current_time := t\<rparr>)"
proof -
  let ?ss = "stops (route st)"
  from inv have
    i1: "vehicle (route st) = v" and
    i2: "\<forall>s \<in> set ?ss. goods s \<in> S \<and> (action s = ''pickup'' \<or> action s = ''delivery'')" and
    i3: "picked_up st = stop_id ` set (pickups ?ss)" and
    i4: "delivered st = stop_id ` set (deliveries ?ss)" and
    i5: "distinct (map stop_id (pickups ?ss))" and
    i6: "distinct (map stop_id (deliveries ?ss))" and
    i7: "pickup_first ?ss" and
    i8: "\<forall>s \<in> set ?ss. action s = ''delivery'' \<longrightarrow>
           arrival_time s \<le> real_of_int (time_to_expiry (goods s))" and
    i9: "goods_delivered (route st) = map goods (deliveries ?ss)"
    by (simp_all add: plan_inv_def Let_def)
  from act show ?thesis
  proof
    assume a: "action s = ''pickup'' \<and> stop_id s \<notin> picked_up st \<and> pu = insert (stop_id s) (picked_up st)
                \<and> de = delivered st \<and> gd = goods_delivered (route st)"
    then have pf: "pickup_first (?ss @ [s])"
      using i7 by (intro pickup_first_snoc_pickup) simp_all
    from a have nd: "action s \<noteq> ''delivery''" by simp
    have c3: "pu = stop_id ` set (pickups (?ss @ [s]))"
      using a i3 by (simp add: pickups_snoc)
    have c4: "de = stop_id ` set (deliveries (?ss @ [s]))"
      using a nd i4 by (simp add: deliveries_snoc)
    have c5: "distinct (map stop_id (pickups (?ss @ [s])))"
      using a i3 i5 by (simp add: pickups_snoc)
    have c6: "distinct (map stop_id (deliveries (?ss @ [s])))"
      using nd i6 by (simp add: deliveries_snoc)
    have c8: "\<forall>x \<in> set (?ss @ [s]). action x = ''delivery'' \<longrightarrow>
           arrival_time x \<le> real_of_int (time_to_expiry (goods x))"
      using i8 nd by auto
    have c2: "\<forall>x \<in> set (?ss @ [s]). goods x \<in> S \<and> (action x = ''pickup'' \<or> action x = ''delivery'')"
      using i2 g a by auto
    have c9: "gd = map goods (deliveries (?ss @ [s]))"
      using a nd i9 by (simp add: deliveries_snoc)
    show ?thesis
      using i1 c2 c3 c4 c5 c6 pf c8 c9 t by (simp add: plan_inv_def Let_def)
  next
    assume a: "action s = ''delivery'' \<and> stop_id s \<notin> delivered st \<and> stop_id s \<in> picked_up st
                \<and> arrival_time s \<le> real_of_int (time_to_expiry (goods s))
                \<and> pu = picked_up st \<and> de = insert (stop_id s) (delivered st)
                \<and> gd = goods_delivered (route st) @ [goods s]"
    then have "stop_id s \<in> stop_id ` set (pickups ?ss)" using i3 by simp
    then have pf: "pickup_first (?ss @ [s])"
      using i7 by (intro pickup_first_snoc_delivery) simp_all
    from a have np: "action s \<noteq> ''pickup''" by simp
    have c3: "pu = stop_id ` set (pickups (?ss @ [s]))"
      using a np i3 by (simp add: pickups_snoc)
    have c4: "de = stop_id ` set (deliveries (?ss @ [s]))"
      using a i4 by (simp add: deliveries_snoc)
    have c5: "distinct (map stop_id (pickups (?ss @ [s])))"
      using np i5 by (simp add: pickups_snoc)
    have c6: "distinct (map stop_id (deliveries (?ss @ [s])))"
      using a i4 i6 by (simp add: deliveries_snoc)
    have c8: "\<forall>x \<in> set (?ss @ [s]). action x = ''delivery'' \<longrightarrow>
           arrival_time x \<le> real_of_int (time_to_expiry (goods x))"
      using i8 a by auto
    have c2: "\<forall>x \<in> set (?ss @ [s]). goods x \<in> S \<and> (action x = ''pickup'' \<or> action x = ''delivery'')"
      using i2 g a by auto
    have c9: "gd = map goods (deliveries (?ss @ [s]))"
      using a i9 by (simp add: deliveries_snoc)
    show ?thesis
      using i1 c2 c3 c4 c5 c6 pf c8 c9 t by (simp add: plan_inv_def Let_def)
  qed
qed

lemma plan_inv_pickup:
  assumes "plan_inv S v st" "cand_ok S v st (sc, ''pickup'', g)"
    and "commit_pickup v st g = Inr st'"
  shows "plan_inv S v st'"
proof -
  from assms(2) have g: "g \<in> S" "goods_id g \<notin> picked_up st" "speed v \<noteq> 0"
    by (auto simp: cand_ok_def)
  define s where "s = pickup_stop g
     (current_time st + distance_to (cur_location st) (pickup_location g) / speed v * 60)"
  have st': "st' = st\<lparr>route := (route st)\<lparr>stops := stops (route st) @ [s],
                                          goods_delivered := goods_delivered (route st)\<rparr>,
                      picked_up := insert (stop_id s) (picked_up st),
                      delivered := delivered st,
                      cur_location := pickup_location g,
                      current_time := arrival_time s + 15\<rparr>"
    using assms(3) g(3) by (simp add: commit_pickup_def travel_time_def s_def Let_def stop_id_def pickup_stop_def)
  have s: "action s = ''pickup''" "goods s = g" "stop_id s = goods_id g"
    by (simp_all add: s_def stop_id_def pickup_stop_def)
  show ?thesis
    unfolding st' using assms(1) g s by (intro plan_inv_snoc) simp_all
qed

lemma plan_inv_delivery:
  assumes "plan_inv S v st" "cand_ok S v st (sc, act, g)" "act \<noteq> ''pickup''"
    and "commit_delivery v st g = Inr st'"
  shows "plan_inv S v st'"
proof -
  from assms(2,3) have g: "g \<in> S" "goods_id g \<notin> delivered st" "speed v \<noteq> 0"
      "goods_id g \<in> picked_up st"
      "current_time st + distance_to (cur_location st) (delivery_location g) / speed v * 60
                \<le> real_of_int (time_to_expiry g)"
    by (auto simp: cand_ok_def)
  define s where "s = delivery_stop g
     (current_time st + distance_to (cur_location st) (delivery_location g) / speed v * 60)"
  have st': "st' = st\<lparr>route := (route st)\<lparr>stops := stops (route st) @ [s],
                      goods_delivered := goods_delivered (route st) @ [goods s]\<rparr>,
                      picked_up := picked_up st,
                      delivered := insert (stop_id s) (delivered st),
                      cur_location := delivery_location g,
                      current_time := arrival_time s + 15\<rparr>"
    using assms(4) g(3) by (simp add: commit_delivery_def travel_time_def s_def Let_def stop_id_def delivery_stop_def)
  have s: "action s = ''delivery''" "goods s = g" "stop_id s = goods_id g"
     "arrival_time s \<le> real_of_int (time_to_expiry g)"
    using g(5) by (simp_all add: s_def stop_id_def delivery_stop_def)
  show ?thesis
    unfolding st' using assms(1) g(1-4) s by (intro plan_inv_snoc) simp_all
qed

lemma plan_inv_add_distance: "plan_inv S v st \<Longrightarrow> plan_inv S v (add_distance v st)"
  by (simp add: plan_inv_def add_distance_def Let_def)

lemma greedy_step_inv:
  assumes "plan_inv (set gl) v st" "greedy_step v gl st = Inr (Some st')"
  shows "plan_inv (set gl) v st'"
proof -
  from assms(2) obtain sc act g where s: "greedy_scan v st None gl = Inr (Some (sc, act, g))"
    by (auto simp: greedy_step_def split: sum.splits option.splits prod.splits)
  have ok: "cand_ok (set gl) v st (sc, act, g)"
    using greedy_scan_ok[OF s] by simp
  show ?thesis
  proof (cases "act = ''pickup''")
    case True
    with assms(2) s obtain st1 where c: "commit_pickup v st g = Inr st1" and e: "st' = add_distance v st1"
      by (auto simp: greedy_step_def split: sum.splits)
    from plan_inv_pickup[OF assms(1) _ c] ok True have "plan_inv (set gl) v st1" by simp
    with e show ?thesis by (simp add: plan_inv_add_distance)
  next
    case False
    with assms(2) s have c: "commit_delivery v st g = Inr st'"
      by (auto simp: greedy_step_def split: sum.splits)
    from plan_inv_delivery[OF assms(1) ok False c] show ?thesis .
  qed
qed

lemma nearest_step_inv:
  assumes "plan_inv (set gl) v st" "nearest_step v gl st = Inr (Some st')"
  shows "plan_inv (set gl) v st'"
proof -
  from assms(2) obtain sc act g where s: "nearest_scan v st None gl = Inr (Some (sc, act, g))"
    by (auto simp: nearest_step_def split: sum.splits option.splits prod.splits)
  have ok: "cand_ok (set gl) v st (sc, act, g)"
    using nearest_scan_ok[OF s] by simp
  show ?thesis
  proof (cases "act = ''pickup''")
    case True
    with assms(2) s have c: "commit_pickup v st g = Inr st'"
      by (auto simp: nearest_step_def split: sum.splits)
    from plan_inv_pickup[OF assms(1) _ c] ok True show ?thesis by simp
  next
    case False
    with assms(2) s have c: "commit_delivery v st g = Inr st'"
      by (auto simp: nearest_step_def split: sum.splits)
    from plan_inv_delivery[OF assms(1) ok False c] show ?thesis .
  qed
qed

lemma greedy_loop_inv:
  "plan_inv (set gl) v st \<Longrightarrow> greedy_loop v gl st = Inr st' \<Longrightarrow> plan_inv (set gl) v st'"
proof (induction v gl st rule: greedy_loop.induct)
  case (1 v gl st)
  show ?case
  proof (cases "card (delivered st) < length gl")
    case False
    with "1.prems" show ?thesis by (simp add: greedy_loop.simps)
  next
    case True
    show ?thesis
    proof (cases "greedy_step v gl st")
      case (Inl e)
      with True "1.prems"(2) show ?thesis by (simp add: greedy_loop.simps)
    next
      case (Inr r)
      show ?thesis
      proof (cases r)
        case None
        with Inr True "1.prems" show ?thesis by (simp add: greedy_loop.simps)
      next
        case (Some st1)
        with Inr True "1.prems"(2) have l: "greedy_loop v gl st1 = Inr st'"
          by (simp add: greedy_loop.simps)
        have "plan_inv (set gl) v st1"
          using greedy_step_inv[OF "1.prems"(1)] Inr Some by simp
        from "1.IH"[OF True Inr Some this l] show ?thesis .
      qed
    qed
  qed
qed

lemma nearest_loop_inv:
  "plan_inv (set gl) v st \<Longrightarrow> nearest_loop v gl st = Inr st' \<Longrightarrow> plan_inv (set gl) v st'"
proof (induction v gl st rule: nearest_loop.induct)
  case (1 v gl st)
  show ?case
  proof (cases "card (delivered st) < length gl")
    case False
    with "1.prems" show ?thesis by (simp add: nearest_loop.simps)
  next
    case True
    show ?thesis
    proof (cases "nearest_step v gl st")
      case (Inl e)
      with True "1.prems"(2) show ?thesis by (simp add: nearest_loop.simps)
    next
      case (Inr r)
      show ?thesis
      proof (cases r)
        case None
        with Inr True "1.prems" show ?thesis by (simp add: nearest_loop.simps)
      next
        case (Some st1)
        with Inr True "1.prems"(2) have l: "nearest_loop v gl st1 = Inr st'"
          by (simp add: nearest_loop.simps)
        have "plan_inv (set gl) v st1"
          using nearest_step_inv[OF "1.prems"(1)] Inr Some by simp
        from "1.IH"[OF True Inr Some this l] show ?thesis .
      qed
    qed
  qed
qed

lemma set_sorted_reverse [simp]: "set (sorted_reverse f xs) = set xs"
  by (simp add: sorted_reverse_def)

lemma length_sorted_reverse [simp]: "length (sorted_reverse f xs) = length xs"
  by (simp add: sorted_reverse_def)

lemma mset_sorted_reverse [simp]: "mset (sorted_reverse f xs) = mset xs"
  by (simp add: sorted_reverse_def)

lemma optimize_route_inv:
  assumes "optimize_route v gl = Inr r"
  shows "\<exists>st. plan_inv (set gl) v st \<and> r = (route st)\<lparr>total_time := current_time st\<rparr>"
proof (cases "gl = []")
  case True
  with assms have "r = (route (initial_state v))\<lparr>total_time := current_time (initial_state v)\<rparr>"
    by (auto simp: optimize_route_def initial_state_def new_route_def)
  with plan_inv_initial show ?thesis by blast
next
  case False
  with assms obtain st where l: "greedy_loop v (sorted_reverse urgency_score gl) (initial_state v) = Inr st"
    and r: "r = (route st)\<lparr>total_time := current_time st\<rparr>"
    by (auto simp: optimize_route_def Let_def split: sum.splits)
  have "plan_inv (set (sorted_reverse urgency_score gl)) v st"
    by (rule greedy_loop_inv[OF plan_inv_initial l])
  with r show ?thesis by auto
qed

lemma optimize_by_distance_inv:
  assumes "optimize_by_distance v gl = Inr r"
  shows "\<exists>st. plan_inv (set gl) v st \<and> r = (route st)\<lparr>total_time := current_time st\<rparr>"
proof -
  from assms obtain st where l: "nearest_loop v gl (initial_state v) = Inr st"
    and r: "r = (route st)\<lparr>total_time := current_time st\<rparr>"
    by (auto simp: optimize_by_distance_def split: sum.splits)
  from nearest_loop_inv[OF plan_inv_initial l] r show ?thesis by auto
qed

lemma optimize_by_time_window_inv:
  assumes "optimize_by_time_window v gl = Inr r"
  shows "\<exists>st. plan_inv (set gl) v st \<and> r = (route st)\<lparr>total_time := current_time st\<rparr>"
  using optimize_route_inv[of v "sort_key (\<lambda>g. (time_to_expiry g, snd (pickup_time_window g))) gl" r] assms
  by (simp add: optimize_by_time_window_def)

lemma built_inv:
  assumes "built v gl r"
  obtains st where "plan_inv (set gl) v st" "r = (route st)\<lparr>total_time := current_time st\<rparr>"
  using assms optimize_route_inv optimize_by_distance_inv optimize_by_time_window_inv
  unfolding built_def by blast

subsection \<open>Feasibility\<close>

lemma is_feasible_loop_verdicts:
  assumes "\<forall>s \<in> set ss. action s \<noteq> ''pickup'' \<longrightarrow>
             arrival_time s \<le> real_of_int (time_to_expiry (goods s))"
  shows "is_feasible_loop v load ss = (True, ''Route is feasible'')
       \<or> (\<exists>s \<in> set ss. action s = ''pickup'' \<and>
             is_feasible_loop v load ss = (False, ''Capacity exceeded at '' @ loc_name (location s)))"
  using assms
proof (induction ss arbitrary: load)
  case Nil
  then show ?case by simp
next
  case (Cons a ss)
  show ?case
  proof (cases "action a = ''pickup''")
    case True
    show ?thesis
    proof (cases "load + quantity (goods a) > capacity v")
      case True
      with \<open>action a = ''pickup''\<close> show ?thesis by simp
    next
      case False
      with True Cons.IH[of "load + quantity (goods a)"] Cons.prems show ?thesis
        by (auto simp: Let_def)
    qed
  next
    case False
    with Cons.IH[of "load - quantity (goods a)"] Cons.prems show ?thesis
      by (auto simp: Let_def)
  qed
qed

section \<open>Evaluating the builders\<close>

text \<open>The equations that unfold a run of a builder on a concrete input.\<close>

lemmas builder_eval =
  optimize_route_def optimize_by_distance_def optimize_by_time_window_def
  greedy_loop.simps nearest_loop.simps greedy_step_def nearest_step_def
  greedy_consider_def nearest_consider_def commit_pickup_def commit_delivery_def
  add_distance_def travel_time_def pickup_stop_def delivery_stop_def sorted_reverse_def
  initial_state_def new_route_def urgency_score_def Let_def

lemma single_item_greedy:
  assumes "speed v \<noteq> 0"
    and "t1 = distance_to (current_location v) (pickup_location g) / speed v * 60"
    and "t1 \<le> real_of_int (snd (pickup_time_window g))"
    and "t2 = t1 + 15 + distance_to (pickup_location g) (delivery_location g) / speed v * 60"
    and "t2 \<le> real_of_int (time_to_expiry g)"
  shows "optimize_route v [g] =
           Inr \<lparr>vehicle = v, stops = [pickup_stop g t1, delivery_stop g t2],
                total_distance = distance_to (current_location v) (pickup_location g),
                total_time = t2 + 15, goods_delivered = [g]\<rparr>"
  using assms by (simp add: builder_eval add.commute add.left_commute)

lemma single_item_nearest:
  assumes "speed v \<noteq> 0"
    and "t1 = distance_to (current_location v) (pickup_location g) / speed v * 60"
    and "t1 \<le> real_of_int (snd (pickup_time_window g))"
    and "t2 = t1 + 15 + distance_to (pickup_location g) (delivery_location g) / speed v * 60"
    and "t2 \<le> real_of_int (time_to_expiry g)"
  shows "optimize_by_distance v [g] =
           Inr \<lparr>vehicle = v, stops = [pickup_stop g t1, delivery_stop g t2],
                total_distance = 0,
                total_time = t2 + 15, goods_delivered = [g]\<rparr>"
  using assms by (simp add: builder_eval add.commute add.left_commute)

lemma single_item_time_window:
  "optimize_by_time_window v [g] = optimize_route v [g]"
  by (simp add: optimize_by_time_window_def)


section \<open>A vehicle of speed zero, and an empty goods list\<close>



lemma sorted_reverse_Nil_iff [simp]: "sorted_reverse f xs = [] \<longleftrightarrow> xs = []"
  by (metis length_sorted_reverse length_0_conv)







lemma scenario_greedy: "optimize_route scenario_vehicle [scenario_goods] = Inr scenario_route"
  using single_item_greedy[of scenario_vehicle 0 scenario_goods 45]
  by (simp add: scenario_vehicle_def scenario_goods_def scenario_route_def
      distance_to_self distance_A_B)

section \<open>Consequences of the invariant\<close>

lemma built_scenario: "built scenario_vehicle [scenario_goods] scenario_route"
  by (simp add: built_def scenario_greedy)

lemma plan_inv_expiry:
  assumes "plan_inv S v st"
  shows "\<forall>s \<in> set (stops (route st)). action s \<noteq> ''pickup'' \<longrightarrow>
           arrival_time s \<le> real_of_int (time_to_expiry (goods s))"
  using assms by (auto simp: plan_inv_def Let_def)

lemma distinct_same_key_length:
  assumes "distinct (map f xs)" "\<forall>x \<in> set xs. P x \<longrightarrow> f x = c"
  shows "length (filter P xs) \<le> 1"
proof -
  have d: "distinct (map f (filter P xs))"
    using assms(1) by (rule distinct_map_filter)
  have "set (map f (filter P xs)) \<subseteq> {c}" using assms(2) by auto
  then have "card (set (map f (filter P xs))) \<le> 1"
    by (metis card_mono finite.emptyI finite.insertI card_1_singleton_iff
        is_singletonI is_singleton_altdef)
  moreover have "card (set (map f (filter P xs))) = length (map f (filter P xs))"
    using d by (rule distinct_card)
  ultimately show ?thesis by simp
qed

lemma plan_inv_once:
  assumes "plan_inv S v st"
  shows "length (filter (\<lambda>s. action s = ''pickup'' \<and> goods s = g) (stops (route st))) \<le> 1"
    and "length (filter (\<lambda>s. action s = ''delivery'' \<and> goods s = g) (stops (route st))) \<le> 1"
proof -
  let ?ss = "stops (route st)"
  from assms have dp: "distinct (map stop_id (pickups ?ss))"
    and dd: "distinct (map stop_id (deliveries ?ss))"
    by (simp_all add: plan_inv_def Let_def)
  have "length (filter (\<lambda>s. goods s = g) (pickups ?ss)) \<le> 1"
    using dp by (rule distinct_same_key_length[where c = "goods_id g"]) (simp add: stop_id_def)
  then show "length (filter (\<lambda>s. action s = ''pickup'' \<and> goods s = g) ?ss) \<le> 1"
    by (simp add: pickups_def conj_commute)
  have "length (filter (\<lambda>s. goods s = g) (deliveries ?ss)) \<le> 1"
    using dd by (rule distinct_same_key_length[where c = "goods_id g"]) (simp add: stop_id_def)
  then show "length (filter (\<lambda>s. action s = ''delivery'' \<and> goods s = g) ?ss) \<le> 1"
    by (simp add: deliveries_def conj_commute)
qed

lemma plan_inv_precedence:
  assumes "plan_inv (set gl) v st" "distinct (map goods_id gl)"
    and "j < length (stops (route st))" "action (stops (route st) ! j) = ''delivery''"
  shows "\<exists>i<j. action (stops (route st) ! i) = ''pickup''
               \<and> goods (stops (route st) ! i) = goods (stops (route st) ! j)"
proof -
  let ?ss = "stops (route st)"
  from assms(1) have pf: "pickup_first ?ss"
    and mem: "\<forall>s \<in> set ?ss. goods s \<in> set gl"
    by (simp_all add: plan_inv_def Let_def)
  from pf assms(3,4) obtain i where i: "i < j" "action (?ss ! i) = ''pickup''"
    "stop_id (?ss ! i) = stop_id (?ss ! j)"
    unfolding pickup_first_def by blast
  from i(1) assms(3) mem have "goods (?ss ! i) \<in> set gl" "goods (?ss ! j) \<in> set gl"
    by simp_all
  moreover have "inj_on goods_id (set gl)"
    using assms(2) by (simp add: distinct_map)
  ultimately have "goods (?ss ! i) = goods (?ss ! j)"
    using i(3) by (auto simp: stop_id_def dest: inj_onD)
  with i show ?thesis by blast
qed

lemma plan_inv_counts:
  assumes "plan_inv (set gl) v st"
  shows "length (pickups (stops (route st))) \<le> length gl"
    and "length (deliveries (stops (route st))) \<le> length gl"
    and "length (stops (route st)) = length (pickups (stops (route st)))
           + length (deliveries (stops (route st)))"
proof -
  let ?ss = "stops (route st)"
  from assms have dp: "distinct (map stop_id (pickups ?ss))"
    and dd: "distinct (map stop_id (deliveries ?ss))"
    and mem: "\<forall>s \<in> set ?ss. goods s \<in> set gl \<and> (action s = ''pickup'' \<or> action s = ''delivery'')"
    by (simp_all add: plan_inv_def Let_def)
  have bound: "length xs \<le> length gl"
    if "distinct (map stop_id xs)" "set xs \<subseteq> set ?ss" for xs
  proof -
    have "length xs = card (set (map stop_id xs))"
      using that(1) by (metis distinct_card length_map)
    also have "\<dots> \<le> card (goods_id ` set gl)"
      using that(2) mem by (intro card_mono) (auto simp: stop_id_def)
    also have "\<dots> \<le> card (set gl)" by (rule card_image_le) simp
    also have "\<dots> \<le> length gl" by (rule card_length)
    finally show ?thesis .
  qed
  show "length (pickups ?ss) \<le> length gl"
    using dp by (rule bound) (auto simp: pickups_def)
  show "length (deliveries ?ss) \<le> length gl"
    using dd by (rule bound) (auto simp: deliveries_def)
  have "deliveries ?ss = filter (\<lambda>s. \<not> action s = ''pickup'') ?ss"
    unfolding deliveries_def using mem by (intro filter_cong) auto
  then show "length ?ss = length (pickups ?ss) + length (deliveries ?ss)"
    using sum_length_filter_compl[of "\<lambda>s. action s = ''pickup''" ?ss]
    by (simp add: pickups_def)
qed


lemma commit_pickup_stops:
  "commit_pickup v st g = Inr st' \<Longrightarrow> \<exists>s. stops (route st') = stops (route st) @ [s]"
  by (auto simp: commit_pickup_def Let_def split: sum.splits)

lemma commit_delivery_stops:
  "commit_delivery v st g = Inr st' \<Longrightarrow> \<exists>s. stops (route st') = stops (route st) @ [s]"
  by (auto simp: commit_delivery_def Let_def split: sum.splits)

lemma greedy_step_stops:
  assumes "greedy_step v gl st = Inr (Some st')"
  shows "\<exists>s. stops (route st') = stops (route st) @ [s]"
proof -
  from assms obtain sc act g where s: "greedy_scan v st None gl = Inr (Some (sc, act, g))"
    by (auto simp: greedy_step_def split: sum.splits option.splits prod.splits)
  show ?thesis
  proof (cases "act = ''pickup''")
    case True
    with assms s obtain st1 where c: "commit_pickup v st g = Inr st1"
      and e: "st' = add_distance v st1"
      by (auto simp: greedy_step_def split: sum.splits)
    from e have "stops (route st') = stops (route st1)"
      by (simp add: add_distance_def Let_def)
    with commit_pickup_stops[OF c] show ?thesis by simp
  next
    case False
    with assms s have "commit_delivery v st g = Inr st'"
      by (auto simp: greedy_step_def split: sum.splits)
    then show ?thesis by (rule commit_delivery_stops)
  qed
qed

lemma nearest_step_stops:
  assumes "nearest_step v gl st = Inr (Some st')"
  shows "\<exists>s. stops (route st') = stops (route st) @ [s]"
proof -
  from assms obtain sc act g where s: "nearest_scan v st None gl = Inr (Some (sc, act, g))"
    by (auto simp: nearest_step_def split: sum.splits option.splits prod.splits)
  show ?thesis
  proof (cases "act = ''pickup''")
    case True
    with assms s have "commit_pickup v st g = Inr st'"
      by (auto simp: nearest_step_def split: sum.splits)
    then show ?thesis by (rule commit_pickup_stops)
  next
    case False
    with assms s have "commit_delivery v st g = Inr st'"
      by (auto simp: nearest_step_def split: sum.splits)
    then show ?thesis by (rule commit_delivery_stops)
  qed
qed

lemma scenario_greedy_step:
  "greedy_step scenario_vehicle [scenario_goods] (initial_state scenario_vehicle)
     = Inr (Some scenario_state1)"
  by (simp add: builder_eval scenario_state1_def scenario_vehicle_def scenario_goods_def
      distance_to_self)

lemma scenario_nearest_step:
  "nearest_step scenario_vehicle [scenario_goods] (initial_state scenario_vehicle)
     = Inr (Some scenario_state1)"
  by (simp add: builder_eval scenario_state1_def scenario_vehicle_def scenario_goods_def
      distance_to_self)

lemma distance_B_A: "distance_to loc_B loc_A = 20"
proof -
  have r: "radians (3600 / (6371 * pi)) = 20 / 6371"
    by (simp add: radians_def)
  have a: "haversine_a loc_B loc_A = (sin (10 / 6371))\<^sup>2"
    by (simp add: haversine_a_def loc_A_def loc_B_def r radians_def)
  have p: "(10::real) / 6371 \<le> pi / 2" using pi_ge_two by simp
  have s: "0 \<le> sin (10 / 6371 :: real)"
    by (rule sin_ge_zero) (use p pi_ge_two in simp_all)
  have "arcsin (sin (10 / 6371 :: real)) = 10 / 6371"
    by (rule arcsin_sin) (use p pi_ge_two in simp_all)
  with a s show ?thesis
    by (simp add: distance_to_def)
qed

lemma scenario_nearest:
  "optimize_by_distance scenario_vehicle [scenario_goods] = Inr scenario_route"
  using single_item_nearest[of scenario_vehicle 0 scenario_goods 45]
  by (simp add: scenario_vehicle_def scenario_goods_def scenario_route_def
      distance_to_self distance_A_B)

lemma remote_greedy:
  "optimize_route scenario_vehicle [remote_goods] = Inr remote_route_greedy"
  using single_item_greedy[of scenario_vehicle 30 remote_goods 75]
  by (simp add: scenario_vehicle_def remote_goods_def remote_route_greedy_def
      distance_A_B distance_B_A)

lemma remote_nearest:
  "optimize_by_distance scenario_vehicle [remote_goods] = Inr remote_route_nearest"
  using single_item_nearest[of scenario_vehicle 30 remote_goods 75]
  by (simp add: scenario_vehicle_def remote_goods_def remote_route_nearest_def
      distance_A_B distance_B_A)

lemma built_route_caches:
  assumes "built v gl r"
  shows "total_time r = recomputed_time (stops r)"
    and "goods_delivered r = recomputed_delivered (stops r)"
proof -
  from assms obtain st where inv: "plan_inv (set gl) v st"
    and r: "r = (route st)\<lparr>total_time := current_time st\<rparr>"
    by (rule built_inv)
  from inv r show "total_time r = recomputed_time (stops r)"
    by (simp add: plan_inv_def Let_def recomputed_time_def)
  from inv r show "goods_delivered r = recomputed_delivered (stops r)"
    by (simp add: plan_inv_def Let_def recomputed_delivered_def)
qed

section \<open>Capacity, quantity and the open bound of the pickup window are not read\<close>

lemma set_unread_fields [simp]:
  "goods_id (set_unread q opn g) = goods_id g"
  "pickup_location (set_unread q opn g) = pickup_location g"
  "delivery_location (set_unread q opn g) = delivery_location g"
  "time_to_expiry (set_unread q opn g) = time_to_expiry g"
  "priority (set_unread q opn g) = priority g"
  "snd (pickup_time_window (set_unread q opn g)) = snd (pickup_time_window g)"
  "urgency_score (set_unread q opn g) = urgency_score g"
  by (simp_all add: set_unread_def urgency_score_def)

lemma set_window_open_unread: "set_window_open f = set_unread quantity f"
  by (rule ext) (simp add: set_window_open_def set_unread_def)

lemma replan_state_fields [simp]:
  "cur_location (replan_state c h st) = cur_location st"
  "current_time (replan_state c h st) = current_time st"
  "picked_up (replan_state c h st) = picked_up st"
  "delivered (replan_state c h st) = delivered st"
  "route (replan_state c h st) = replan c h (route st)"
  by (simp_all add: replan_state_def)

lemma replan_state_initial [simp]:
  "replan_state c h (initial_state v) = initial_state (v\<lparr>capacity := c\<rparr>)"
  by (simp add: replan_state_def replan_def retag_def initial_state_def new_route_def)

lemma travel_time_capacity [simp]:
  "travel_time (v\<lparr>capacity := c\<rparr>) a b = travel_time v a b"
  by (simp add: travel_time_def)

lemma greedy_consider_replan:
  "greedy_consider (v\<lparr>capacity := c\<rparr>) (replan_state c (set_unread q opn) st)
       (map_option (retag_candidate (set_unread q opn)) best) (set_unread q opn g)
     = map_sum (\<lambda>e. e) (map_option (retag_candidate (set_unread q opn)))
         (greedy_consider v st best g)"
  by (cases best)
    (auto simp: greedy_consider_def travel_time_def retag_candidate_def Let_def)

lemma nearest_consider_replan:
  "nearest_consider (v\<lparr>capacity := c\<rparr>) (replan_state c (set_unread q opn) st)
       (map_option (retag_candidate (set_unread q opn)) best) (set_unread q opn g)
     = map_sum (\<lambda>e. e) (map_option (retag_candidate (set_unread q opn)))
         (nearest_consider v st best g)"
  by (cases best)
    (auto simp: nearest_consider_def retag_candidate_def Let_def)

lemma greedy_scan_replan:
  "greedy_scan (v\<lparr>capacity := c\<rparr>) (replan_state c (set_unread q opn) st)
       (map_option (retag_candidate (set_unread q opn)) best) (map (set_unread q opn) gl)
     = map_sum (\<lambda>e. e) (map_option (retag_candidate (set_unread q opn)))
         (greedy_scan v st best gl)"
proof (induction gl arbitrary: best)
  case Nil
  then show ?case by simp
next
  case (Cons g gl)
  show ?case
  proof (cases "greedy_consider v st best g")
    case (Inl e)
    then show ?thesis by (simp add: greedy_consider_replan)
  next
    case (Inr b)
    then show ?thesis using Cons.IH[of b] by (simp add: greedy_consider_replan)
  qed
qed

lemma nearest_scan_replan:
  "nearest_scan (v\<lparr>capacity := c\<rparr>) (replan_state c (set_unread q opn) st)
       (map_option (retag_candidate (set_unread q opn)) best) (map (set_unread q opn) gl)
     = map_sum (\<lambda>e. e) (map_option (retag_candidate (set_unread q opn)))
         (nearest_scan v st best gl)"
proof (induction gl arbitrary: best)
  case Nil
  then show ?case by simp
next
  case (Cons g gl)
  show ?case
  proof (cases "nearest_consider v st best g")
    case (Inl e)
    then show ?thesis by (simp add: nearest_consider_replan)
  next
    case (Inr b)
    then show ?thesis using Cons.IH[of b] by (simp add: nearest_consider_replan)
  qed
qed

lemma commit_pickup_replan:
  "commit_pickup (v\<lparr>capacity := c\<rparr>) (replan_state c (set_unread q opn) st) (set_unread q opn g)
     = map_sum (\<lambda>e. e) (replan_state c (set_unread q opn)) (commit_pickup v st g)"
  by (simp add: commit_pickup_def travel_time_def Let_def replan_state_def replan_def retag_def
      retag_stop_def pickup_stop_def)

lemma commit_delivery_replan:
  "commit_delivery (v\<lparr>capacity := c\<rparr>) (replan_state c (set_unread q opn) st)
       (set_unread q opn g)
     = map_sum (\<lambda>e. e) (replan_state c (set_unread q opn)) (commit_delivery v st g)"
  by (simp add: commit_delivery_def travel_time_def Let_def replan_state_def replan_def retag_def
      retag_stop_def delivery_stop_def)

lemma add_distance_replan:
  "add_distance (v\<lparr>capacity := c\<rparr>) (replan_state c h st)
     = replan_state c h (add_distance v st)"
proof (cases "stops (route st) = []")
  case True
  then show ?thesis
    by (simp add: add_distance_def Let_def replan_state_def replan_def retag_def)
next
  case False
  then have "location (last (map (retag_stop h) (stops (route st))))
      = location (last (stops (route st)))"
    by (simp add: last_map retag_stop_def)
  then show ?thesis
    by (simp add: add_distance_def Let_def replan_state_def replan_def retag_def)
qed

lemma greedy_step_replan:
  "greedy_step (v\<lparr>capacity := c\<rparr>) (map (set_unread q opn) gl)
       (replan_state c (set_unread q opn) st)
     = map_sum (\<lambda>e. e) (map_option (replan_state c (set_unread q opn))) (greedy_step v gl st)"
proof -
  have s: "greedy_scan (v\<lparr>capacity := c\<rparr>) (replan_state c (set_unread q opn) st) None
         (map (set_unread q opn) gl)
     = map_sum (\<lambda>e. e) (map_option (retag_candidate (set_unread q opn)))
         (greedy_scan v st None gl)"
    using greedy_scan_replan[where v = v and c = c and q = q and opn = opn and st = st
        and best = None and gl = gl] by simp
  show ?thesis
  proof (cases "greedy_scan v st None gl")
    case (Inl e)
    then show ?thesis by (simp add: greedy_step_def s)
  next
    case (Inr b)
    show ?thesis
    proof (cases b)
      case None
      with Inr show ?thesis by (simp add: greedy_step_def s)
    next
      case (Some cand)
      obtain sc act g where cand: "cand = (sc, act, g)" by (cases cand) auto
      show ?thesis
      proof (cases "act = ''pickup''")
        case True
        with Inr Some cand show ?thesis
          by (cases "commit_pickup v st g")
            (simp_all add: greedy_step_def s retag_candidate_def commit_pickup_replan
              add_distance_replan)
      next
        case False
        with Inr Some cand show ?thesis
          by (cases "commit_delivery v st g")
            (simp_all add: greedy_step_def s retag_candidate_def commit_delivery_replan)
      qed
    qed
  qed
qed

lemma nearest_step_replan:
  "nearest_step (v\<lparr>capacity := c\<rparr>) (map (set_unread q opn) gl)
       (replan_state c (set_unread q opn) st)
     = map_sum (\<lambda>e. e) (map_option (replan_state c (set_unread q opn))) (nearest_step v gl st)"
proof -
  have s: "nearest_scan (v\<lparr>capacity := c\<rparr>) (replan_state c (set_unread q opn) st) None
         (map (set_unread q opn) gl)
     = map_sum (\<lambda>e. e) (map_option (retag_candidate (set_unread q opn)))
         (nearest_scan v st None gl)"
    using nearest_scan_replan[where v = v and c = c and q = q and opn = opn and st = st
        and best = None and gl = gl] by simp
  show ?thesis
  proof (cases "nearest_scan v st None gl")
    case (Inl e)
    then show ?thesis by (simp add: nearest_step_def s)
  next
    case (Inr b)
    show ?thesis
    proof (cases b)
      case None
      with Inr show ?thesis by (simp add: nearest_step_def s)
    next
      case (Some cand)
      obtain sc act g where cand: "cand = (sc, act, g)" by (cases cand) auto
      show ?thesis
      proof (cases "act = ''pickup''")
        case True
        with Inr Some cand show ?thesis
          by (cases "commit_pickup v st g")
            (simp_all add: nearest_step_def s retag_candidate_def commit_pickup_replan)
      next
        case False
        with Inr Some cand show ?thesis
          by (cases "commit_delivery v st g")
            (simp_all add: nearest_step_def s retag_candidate_def commit_delivery_replan)
      qed
    qed
  qed
qed

lemma greedy_loop_replan:
  "greedy_loop (v\<lparr>capacity := c\<rparr>) (map (set_unread q opn) gl)
       (replan_state c (set_unread q opn) st)
     = map_sum (\<lambda>e. e) (replan_state c (set_unread q opn)) (greedy_loop v gl st)"
proof (induction v gl st rule: greedy_loop.induct)
  case (1 v gl st)
  note unf = greedy_loop.simps[of v gl st]
    greedy_loop.simps[of "v\<lparr>capacity := c\<rparr>" "map (set_unread q opn) gl"
      "replan_state c (set_unread q opn) st"]
  show ?case
  proof (cases "card (delivered st) < length gl")
    case False
    then show ?thesis by (simp add: unf)
  next
    case True
    show ?thesis
    proof (cases "greedy_step v gl st")
      case (Inl e)
      with True show ?thesis by (simp add: unf greedy_step_replan)
    next
      case (Inr r)
      show ?thesis
      proof (cases r)
        case None
        with Inr True show ?thesis by (simp add: unf greedy_step_replan)
      next
        case (Some st1)
        from "1.IH"[OF True Inr Some] Inr Some True show ?thesis
          by (simp add: unf greedy_step_replan)
      qed
    qed
  qed
qed

lemma nearest_loop_replan:
  "nearest_loop (v\<lparr>capacity := c\<rparr>) (map (set_unread q opn) gl)
       (replan_state c (set_unread q opn) st)
     = map_sum (\<lambda>e. e) (replan_state c (set_unread q opn)) (nearest_loop v gl st)"
proof (induction v gl st rule: nearest_loop.induct)
  case (1 v gl st)
  note unf = nearest_loop.simps[of v gl st]
    nearest_loop.simps[of "v\<lparr>capacity := c\<rparr>" "map (set_unread q opn) gl"
      "replan_state c (set_unread q opn) st"]
  show ?case
  proof (cases "card (delivered st) < length gl")
    case False
    then show ?thesis by (simp add: unf)
  next
    case True
    show ?thesis
    proof (cases "nearest_step v gl st")
      case (Inl e)
      with True show ?thesis by (simp add: unf nearest_step_replan)
    next
      case (Inr r)
      show ?thesis
      proof (cases r)
        case None
        with Inr True show ?thesis by (simp add: unf nearest_step_replan)
      next
        case (Some st1)
        from "1.IH"[OF True Inr Some] Inr Some True show ?thesis
          by (simp add: unf nearest_step_replan)
      qed
    qed
  qed
qed

lemma insort_key_map:
  "insort_key k (h x) (map h xs) = map h (insort_key (\<lambda>y. k (h y)) x xs)"
  by (induction xs) simp_all

lemma sort_key_map:
  "sort_key k (map h xs) = map h (sort_key (\<lambda>y. k (h y)) xs)"
  by (induction xs) (simp_all add: insort_key_map)

lemma sorted_reverse_map:
  "sorted_reverse k (map h xs) = map h (sorted_reverse (\<lambda>y. k (h y)) xs)"
  by (simp add: sorted_reverse_def sort_key_map rev_map)

lemma replan_total_time:
  "(replan c h r)\<lparr>total_time := t\<rparr> = replan c h (r\<lparr>total_time := t\<rparr>)"
  by (simp add: replan_def retag_def)

lemma optimize_route_replan:
  "optimize_route (v\<lparr>capacity := c\<rparr>) (map (set_unread q opn) gl)
     = map_sum (\<lambda>e. e) (replan c (set_unread q opn)) (optimize_route v gl)"
proof (cases "gl = []")
  case True
  then show ?thesis by (simp add: optimize_route_def replan_def retag_def new_route_def)
next
  case False
  have s: "sorted_reverse urgency_score (map (set_unread q opn) gl)
      = map (set_unread q opn) (sorted_reverse urgency_score gl)"
    by (simp add: sorted_reverse_map)
  have "greedy_loop (v\<lparr>capacity := c\<rparr>)
         (map (set_unread q opn) (sorted_reverse urgency_score gl))
         (initial_state (v\<lparr>capacity := c\<rparr>))
     = map_sum (\<lambda>e. e) (replan_state c (set_unread q opn))
         (greedy_loop v (sorted_reverse urgency_score gl) (initial_state v))"
    using greedy_loop_replan[where v = v and c = c and q = q and opn = opn
        and gl = "sorted_reverse urgency_score gl" and st = "initial_state v"]
    by simp
  with False show ?thesis
    by (cases "greedy_loop v (sorted_reverse urgency_score gl) (initial_state v)")
      (simp_all add: optimize_route_def Let_def s replan_total_time)
qed

lemma optimize_by_distance_replan:
  "optimize_by_distance (v\<lparr>capacity := c\<rparr>) (map (set_unread q opn) gl)
     = map_sum (\<lambda>e. e) (replan c (set_unread q opn)) (optimize_by_distance v gl)"
proof -
  have "nearest_loop (v\<lparr>capacity := c\<rparr>) (map (set_unread q opn) gl)
         (initial_state (v\<lparr>capacity := c\<rparr>))
     = map_sum (\<lambda>e. e) (replan_state c (set_unread q opn)) (nearest_loop v gl (initial_state v))"
    using nearest_loop_replan[where v = v and c = c and q = q and opn = opn and gl = gl
        and st = "initial_state v"] by simp
  then show ?thesis
    by (cases "nearest_loop v gl (initial_state v)")
      (simp_all add: optimize_by_distance_def replan_total_time)
qed






text \<open>The open bound alone.\<close>

lemma replan_same_capacity:
  assumes "vehicle r = v"
  shows "replan (capacity v) h r = retag h r"
  using assms by (simp add: replan_def retag_def)

lemma optimize_route_retag:
  "optimize_route v (map (set_window_open f) gl)
     = map_sum (\<lambda>e. e) (retag (set_window_open f)) (optimize_route v gl)"
proof (cases "optimize_route v gl")
  case (Inl e)
  with optimize_route_replan[where v = v and c = "capacity v" and q = quantity and opn = f
      and gl = gl] show ?thesis
    by (simp add: set_window_open_unread)
next
  case (Inr r)
  then have "vehicle r = v"
    using optimize_route_inv[of v gl r] by (auto simp: plan_inv_def Let_def)
  with Inr optimize_route_replan[where v = v and c = "capacity v" and q = quantity and opn = f
      and gl = gl] show ?thesis
    by (simp add: set_window_open_unread replan_same_capacity)
qed

lemma optimize_by_distance_retag:
  "optimize_by_distance v (map (set_window_open f) gl)
     = map_sum (\<lambda>e. e) (retag (set_window_open f)) (optimize_by_distance v gl)"
proof (cases "optimize_by_distance v gl")
  case (Inl e)
  with optimize_by_distance_replan[where v = v and c = "capacity v" and q = quantity
      and opn = f and gl = gl] show ?thesis
    by (simp add: set_window_open_unread)
next
  case (Inr r)
  then have "vehicle r = v"
    using optimize_by_distance_inv[of v gl r] by (auto simp: plan_inv_def Let_def)
  with Inr optimize_by_distance_replan[where v = v and c = "capacity v" and q = quantity
      and opn = f and gl = gl] show ?thesis
    by (simp add: set_window_open_unread replan_same_capacity)
qed

lemma early_greedy:
  "optimize_route scenario_vehicle [early_goods]
     = Inr \<lparr>vehicle = scenario_vehicle,
            stops = [pickup_stop early_goods 0, delivery_stop early_goods 45],
            total_distance = 0, total_time = 60, goods_delivered = [early_goods]\<rparr>"
  using single_item_greedy[of scenario_vehicle 0 early_goods 45]
  by (simp add: scenario_vehicle_def early_goods_def distance_to_self distance_A_B)

lemma early_nearest:
  "optimize_by_distance scenario_vehicle [early_goods]
     = Inr \<lparr>vehicle = scenario_vehicle,
            stops = [pickup_stop early_goods 0, delivery_stop early_goods 45],
            total_distance = 0, total_time = 60, goods_delivered = [early_goods]\<rparr>"
  using single_item_nearest[of scenario_vehicle 0 early_goods 45]
  by (simp add: scenario_vehicle_def early_goods_def distance_to_self distance_A_B)

section \<open>The domain of the haversine formula\<close>

text \<open>\<^verbatim>\<open>math.sqrt\<close> raises on a negative argument and \<^verbatim>\<open>math.asin\<close> outside [-1, 1].  The
  exact value of the argument \<^verbatim>\<open>a\<close> of \<^verbatim>\<open>distance_to\<close> lies in [0, 1] for all real
  coordinates, which is why the model has no such branch; the rounded value on doubles can
  lie outside, and then the code raises \<^verbatim>\<open>ValueError\<close>.\<close>

lemma haversine_a_range: "0 \<le> haversine_a p q \<and> haversine_a p q \<le> 1"
proof -
  define u where "u = radians (latitude p)"
  define w where "w = radians (latitude q)"
  define y where "y = (radians (longitude q) - radians (longitude p)) / 2"
  define k where "k = cos u * cos w"
  have a: "haversine_a p q = (sin ((w - u) / 2))\<^sup>2 + k * (sin y)\<^sup>2"
    by (simp add: haversine_a_def u_def w_def y_def k_def Let_def)
  have "2 * ((w - u) / 2) = w - u" by simp
  then have "cos (w - u) = 1 - 2 * (sin ((w - u) / 2))\<^sup>2"
    using cos_double_sin[of "(w - u) / 2"] by (simp only:)
  then have h: "(sin ((w - u) / 2))\<^sup>2 = (1 - cos (w - u)) / 2" by simp
  have "cos (w - u) = k + sin w * sin u" "cos (w + u) = k - sin w * sin u"
    by (simp_all add: cos_diff cos_add k_def mult.commute)
  then have e: "(sin ((w - u) / 2))\<^sup>2 + k = (1 + cos (w + u)) / 2"
    using h by simp
  have b1: "0 \<le> (sin ((w - u) / 2))\<^sup>2" "(sin ((w - u) / 2))\<^sup>2 \<le> 1"
    by (simp_all add: abs_square_le_1 flip: abs_le_square_iff)
  have "- 1 \<le> cos (w + u)" by simp
  then have "0 \<le> 1 + cos (w + u)" by linarith
  then have b2: "0 \<le> (sin ((w - u) / 2))\<^sup>2 + k"
    unfolding e by simp
  have b3: "(sin ((w - u) / 2))\<^sup>2 + k \<le> 1"
    unfolding e by simp
  have s: "0 \<le> (sin y)\<^sup>2" "(sin y)\<^sup>2 \<le> 1"
    by (simp_all add: abs_square_le_1 flip: abs_le_square_iff)
  show ?thesis
  proof (cases "0 \<le> k")
    case True
    then have "0 \<le> k * (sin y)\<^sup>2" "k * (sin y)\<^sup>2 \<le> k"
      using s by (simp_all add: mult_left_le)
    with b1 b2 b3 show ?thesis unfolding a by linarith
  next
    case False
    then have "k * (sin y)\<^sup>2 \<le> 0" "k \<le> k * (sin y)\<^sup>2"
      using s by (simp_all add: mult_le_0_iff mult_left_le_one_le)
    with b1 b2 b3 show ?thesis unfolding a by linarith
  qed
qed

lemma haversine_sqrt_range: "0 \<le> sqrt (haversine_a p q) \<and> sqrt (haversine_a p q) \<le> 1"
  using haversine_a_range[of p q] by (simp add: real_sqrt_le_1_iff)

section \<open>What the ensemble selector guarantees\<close>

text \<open>For a count \<open>k\<close> that is not negative the selector returns at most \<open>k\<close> routes, and
  never more than three; every returned route is a non-empty route of one of the builders;
  the returned routes are pairwise different as values of \<^verbatim>\<open>Route\<close> (all five fields
  compared); and they are ordered by quantity delivered, descending, then by total time,
  ascending.\<close>

lemma sorted_reverse_sorted:
  "sorted_wrt (\<lambda>a b. f b \<le> f a) (sorted_reverse f xs)"
proof -
  have "sorted (map f (sort_key f (rev xs)))" by (rule sorted_sort_key)
  then have "sorted_wrt (\<lambda>a b. f a \<le> f b) (sort_key f (rev xs))"
    by (simp add: sorted_wrt_map)
  then show ?thesis
    by (simp add: sorted_reverse_def sorted_wrt_rev)
qed

lemma distinct_sorted_reverse [simp]: "distinct (sorted_reverse f xs) = distinct xs"
  by (simp add: sorted_reverse_def)

lemma slice_to_take: "\<exists>n. slice_to k xs = take n xs \<and> (0 \<le> k \<longrightarrow> n = nat k)"
proof (cases "0 \<le> k")
  case True
  then show ?thesis by (intro exI[of _ "nat k"]) (simp add: slice_to_def)
next
  case False
  then show ?thesis by (intro exI[of _ "length xs - nat (- k)"]) (simp add: slice_to_def)
qed

lemma selector_properties:
  assumes "find_k_shortest_routes v gl k = Inr rs"
  shows "0 \<le> k \<Longrightarrow> length rs \<le> nat k"
    and "length rs \<le> 3"
    and "\<forall>r \<in> set rs. stops r \<noteq> [] \<and> built v gl r"
    and "distinct rs"
    and "sorted_wrt (\<lambda>a b. total_goods_saved b < total_goods_saved a
           \<or> (total_goods_saved b = total_goods_saved a \<and> total_time a \<le> total_time b)) rs"
proof -
  from assms obtain r1 r2 r3 where r: "optimize_route v gl = Inr r1"
    "optimize_by_distance v gl = Inr r2" "optimize_by_time_window v gl = Inr r3"
    by (auto simp: find_k_shortest_routes_def Let_def split: sum.splits)
  define c1 where "c1 = (if stops r1 \<noteq> [] then [r1] else [])"
  define c2 where "c2 = (if stops r2 \<noteq> [] \<and> r2 \<noteq> r1 then c1 @ [r2] else c1)"
  define c3 where "c3 = (if stops r3 \<noteq> [] \<and> r3 \<notin> set c2 then c2 @ [r3] else c2)"
  define key where "key = (\<lambda>r. (total_goods_saved r, - total_time r))"
  have "find_k_shortest_routes v gl k = Inr (slice_to k (sorted_reverse key c3))"
    unfolding find_k_shortest_routes_def Let_def c1_def c2_def c3_def key_def
    by (simp only: r sum.case)
  with assms have rs: "rs = slice_to k (sorted_reverse key c3)" by simp
  obtain n where n: "rs = take n (sorted_reverse key c3)" "0 \<le> k \<longrightarrow> n = nat k"
    using slice_to_take[of k "sorted_reverse key c3"] rs by auto
  have d: "distinct c3" by (auto simp: c1_def c2_def c3_def)
  have l: "length c3 \<le> 3" by (simp add: c1_def c2_def c3_def)
  have b: "\<forall>r \<in> set c3. stops r \<noteq> [] \<and> built v gl r"
    using r by (auto simp: c1_def c2_def c3_def built_def split: if_splits)
  show "length rs \<le> nat k" if "0 \<le> k"
    using n that by simp
  show "length rs \<le> 3" using n(1) l by simp
  show "\<forall>r \<in> set rs. stops r \<noteq> [] \<and> built v gl r"
    using b n(1) by (auto dest: in_set_takeD)
  show "distinct rs" using d n(1) by simp
  have "sorted_wrt (\<lambda>a b. key b \<le> key a) rs"
    unfolding n(1) by (intro sorted_wrt_take sorted_reverse_sorted)
  then show "sorted_wrt (\<lambda>a b. total_goods_saved b < total_goods_saved a
           \<or> (total_goods_saved b = total_goods_saved a \<and> total_time a \<le> total_time b)) rs"
    by (rule sorted_wrt_mono_rel[rotated]) (auto simp: key_def less_eq_prod_def)
qed

section \<open>The 1 km band over a whole scan\<close>

text \<open>What the replacement rule of the nearest-action builder gives for the winner of a
  scan: its distance is at most the distance of every eligible pickup candidate, and at
  most 1 km more than the distance of every eligible delivery candidate.\<close>

lemma nearest_consider_min:
  assumes "nearest_consider v st best g = Inr best'" "best = Some (m, a, b)"
  shows "\<exists>m' a' b'. best' = Some (m', a', b') \<and> m' \<le> m"
  using assms
  by (auto simp: nearest_consider_def Let_def split: if_splits)

lemma nearest_scan_min:
  assumes "nearest_scan v st best gl = Inr best'" "best = Some (m, a, b)"
  shows "\<exists>m' a' b'. best' = Some (m', a', b') \<and> m' \<le> m"
  using assms
proof (induction gl arbitrary: best m a b)
  case Nil
  then have "best' = Some (m, a, b)" by simp
  then show ?case by simp
next
  case (Cons g gl)
  from Cons.prems(1) obtain b1 where c: "nearest_consider v st best g = Inr b1"
    and r: "nearest_scan v st b1 gl = Inr best'"
    by (auto split: sum.splits)
  from nearest_consider_min[OF c Cons.prems(2)] obtain m1 a1 x1 where
    b1: "b1 = Some (m1, a1, x1)" "m1 \<le> m" by blast
  from Cons.IH[OF r b1(1)] b1(2) show ?case by fastforce
qed

lemma nearest_consider_band:
  assumes "nearest_consider v st best g = Inr best'" "goods_id g \<notin> delivered st"
  shows "(goods_id g \<notin> picked_up st
            \<and> current_time st + distance_to (cur_location st) (pickup_location g) / speed v * 60
                \<le> real_of_int (snd (pickup_time_window g))
          \<longrightarrow> (\<exists>m a b. best' = Some (m, a, b)
                \<and> m \<le> distance_to (cur_location st) (pickup_location g)))
       \<and> (goods_id g \<in> picked_up st
            \<and> current_time st + distance_to (cur_location st) (delivery_location g) / speed v * 60
                \<le> real_of_int (time_to_expiry g)
          \<longrightarrow> (\<exists>m a b. best' = Some (m, a, b)
                \<and> m \<le> distance_to (cur_location st) (delivery_location g) + 1))"
  using assms
  by (cases best) (auto simp: nearest_consider_def Let_def split: if_splits)

lemma nearest_scan_band:
  assumes "nearest_scan v st best gl = Inr best'"
    and "g \<in> set gl" "goods_id g \<notin> delivered st"
  shows "(goods_id g \<notin> picked_up st
            \<and> current_time st + distance_to (cur_location st) (pickup_location g) / speed v * 60
                \<le> real_of_int (snd (pickup_time_window g))
          \<longrightarrow> (\<exists>m a b. best' = Some (m, a, b)
                \<and> m \<le> distance_to (cur_location st) (pickup_location g)))
       \<and> (goods_id g \<in> picked_up st
            \<and> current_time st + distance_to (cur_location st) (delivery_location g) / speed v * 60
                \<le> real_of_int (time_to_expiry g)
          \<longrightarrow> (\<exists>m a b. best' = Some (m, a, b)
                \<and> m \<le> distance_to (cur_location st) (delivery_location g) + 1))"
  using assms
proof (induction gl arbitrary: best)
  case Nil
  then show ?case by simp
next
  case (Cons x gl)
  from Cons.prems(1) obtain b1 where c: "nearest_consider v st best x = Inr b1"
    and r: "nearest_scan v st b1 gl = Inr best'"
    by (auto split: sum.splits)
  show ?case
  proof (cases "g = x")
    case True
    have mono: "\<exists>m' a' b'. best' = Some (m', a', b') \<and> m' \<le> bound"
      if "b1 = Some (m, a, b)" "m \<le> bound" for m a b bound
      using nearest_scan_min[OF r that(1)] that(2) by fastforce
    from nearest_consider_band[OF c] Cons.prems(3) True mono show ?thesis
      by fastforce
  next
    case False
    with Cons.prems(2) have "g \<in> set gl" by simp
    from Cons.IH[OF r this Cons.prems(3)] show ?thesis .
  qed
qed

section \<open>The number of iterations\<close>

lemma plan_measure_le: "plan_measure gl st \<le> 2 * length gl"
proof -
  have "card (goods_id ` set gl - X) \<le> length gl" for X
  proof -
    have "card (goods_id ` set gl - X) \<le> card (goods_id ` set gl)"
      by (intro card_mono) auto
    also have "\<dots> \<le> card (set gl)" by (rule card_image_le) simp
    also have "\<dots> \<le> length gl" by (rule card_length)
    finally show ?thesis .
  qed
  from this[of "picked_up st"] this[of "delivered st"] show ?thesis
    by (simp add: plan_measure_def)
qed

lemma greedy_loop_fuel_enough:
  "plan_measure gl st < n \<Longrightarrow> greedy_loop_fuel n v gl st = Some (greedy_loop v gl st)"
proof (induction n arbitrary: st)
  case 0
  then show ?case by simp
next
  case (Suc n)
  show ?case
  proof (cases "card (delivered st) < length gl")
    case False
    then show ?thesis by (simp add: greedy_loop.simps[of v gl st])
  next
    case True
    show ?thesis
    proof (cases "greedy_step v gl st")
      case (Inl e)
      with True show ?thesis by (simp add: greedy_loop.simps[of v gl st])
    next
      case (Inr r)
      show ?thesis
      proof (cases r)
        case None
        with Inr True show ?thesis by (simp add: greedy_loop.simps[of v gl st])
      next
        case (Some st1)
        with Inr have "plan_measure gl st1 < plan_measure gl st"
          by (intro greedy_step_measure) simp
        with Suc.prems have "plan_measure gl st1 < n" by simp
        from Suc.IH[OF this] Inr Some True show ?thesis
          by (simp add: greedy_loop.simps[of v gl st])
      qed
    qed
  qed
qed

lemma nearest_loop_fuel_enough:
  "plan_measure gl st < n \<Longrightarrow> nearest_loop_fuel n v gl st = Some (nearest_loop v gl st)"
proof (induction n arbitrary: st)
  case 0
  then show ?case by simp
next
  case (Suc n)
  show ?case
  proof (cases "card (delivered st) < length gl")
    case False
    then show ?thesis by (simp add: nearest_loop.simps[of v gl st])
  next
    case True
    show ?thesis
    proof (cases "nearest_step v gl st")
      case (Inl e)
      with True show ?thesis by (simp add: nearest_loop.simps[of v gl st])
    next
      case (Inr r)
      show ?thesis
      proof (cases r)
        case None
        with Inr True show ?thesis by (simp add: nearest_loop.simps[of v gl st])
      next
        case (Some st1)
        with Inr have "plan_measure gl st1 < plan_measure gl st"
          by (intro nearest_step_measure) simp
        with Suc.prems have "plan_measure gl st1 < n" by simp
        from Suc.IH[OF this] Inr Some True show ?thesis
          by (simp add: nearest_loop.simps[of v gl st])
      qed
    qed
  qed
qed

section \<open>Distances along the equator\<close>













section \<open>The builders scan by the replacement rules\<close>













section \<open>Urgency score\<close>

text \<open>
  C9.  The urgency score of an item is \<open>1000 / max(time_to_expiry, 1) + (6 - priority) * 10\<close>,
  and it never increases when the item's priority value grows, nor when its
  time-to-expiry grows, all other fields fixed.
\<close>

theorem urgency_score_monotone:
  "urgency_score g
     = 1000 / real_of_int (max (time_to_expiry g) 1) + (6 - real_of_int (priority g)) * 10
   \<and> (\<forall>p'. priority g \<le> p' \<longrightarrow> urgency_score (g\<lparr>priority := p'\<rparr>) \<le> urgency_score g)
   \<and> (\<forall>t'. time_to_expiry g \<le> t'
          \<longrightarrow> urgency_score (g\<lparr>time_to_expiry := t'\<rparr>) \<le> urgency_score g)"
proof (intro conjI allI impI)
  show "urgency_score g
     = 1000 / real_of_int (max (time_to_expiry g) 1) + (6 - real_of_int (priority g)) * 10"
    by (simp add: urgency_score_def)
next
  fix p' assume "priority g \<le> p'"
  then show "urgency_score (g\<lparr>priority := p'\<rparr>) \<le> urgency_score g"
    by (simp add: urgency_score_def)
next
  fix t' assume le: "time_to_expiry g \<le> t'"
  have "0 < real_of_int (max (time_to_expiry g) 1)" by simp
  moreover have "real_of_int (max (time_to_expiry g) 1) \<le> real_of_int (max t' 1)"
    using le by simp
  ultimately have "1000 / real_of_int (max t' 1)
      \<le> 1000 / real_of_int (max (time_to_expiry g) 1)"
    by (intro divide_left_mono) (simp_all add: mult_pos_pos)
  then show "urgency_score (g\<lparr>time_to_expiry := t'\<rparr>) \<le> urgency_score g"
    by (simp add: urgency_score_def)
qed

theorem urgency_score_monotone_witness:
  "urgency_score scenario_goods = 1000 / 60 + 50
   \<and> priority scenario_goods \<le> 4
   \<and> urgency_score (scenario_goods\<lparr>priority := 4\<rparr>) \<le> urgency_score scenario_goods
   \<and> time_to_expiry scenario_goods \<le> 600
   \<and> urgency_score (scenario_goods\<lparr>time_to_expiry := 600\<rparr>) \<le> urgency_score scenario_goods"
  using urgency_score_monotone [of scenario_goods]
  by (simp add: scenario_goods_def)

section \<open>The scenario\<close>

text \<open>
  C4 as stated fails: in the scenario the delivery stop's arrival time is 45 minutes, not
  about 30, because the 15 minutes of service at the pickup stop pass before the 30
  minutes of travel.
\<close>

theorem scenario_delivery_arrival_counterexample:
  "optimize_route scenario_vehicle [scenario_goods] = Inr scenario_route
   \<and> stops scenario_route = [pickup_stop scenario_goods 0, delivery_stop scenario_goods 45]
   \<and> arrival_time (delivery_stop scenario_goods 45) = 45"
  by (simp add: scenario_greedy) (simp add: scenario_route_def delivery_stop_def)

text \<open>
  C4, amended.  For a vehicle of capacity 100 and speed 40 km/h at A and one item of
  quantity 30, picked up at A, delivered at B 20 km from A, expiring after 60 minutes, with
  pickup window [0, 120], the greedy builder returns a route of two stops, a pickup stop
  with arrival time 0 and a delivery stop with arrival time 45; the route is feasible and
  the quantity delivered is 30.
\<close>

theorem greedy_scenario:
  assumes "capacity v = 100" "speed v = 40" "current_location v = A"
    and "quantity g = 30" "pickup_location g = A" "delivery_location g = B"
    and "distance_to A B = 20" "time_to_expiry g = 60" "pickup_time_window g = (0, 120)"
  shows "\<exists>r. optimize_route v [g] = Inr r
           \<and> stops r = [pickup_stop g 0, delivery_stop g 45]
           \<and> arrival_time (pickup_stop g 0) = 0
           \<and> arrival_time (delivery_stop g 45) = 45
           \<and> is_feasible r = (True, ''Route is feasible'')
           \<and> total_goods_saved r = 30"
proof -
  let ?r = "\<lparr>vehicle = v, stops = [pickup_stop g 0, delivery_stop g 45],
             total_distance = 0, total_time = 60, goods_delivered = [g]\<rparr>"
  have "optimize_route v [g] = Inr ?r"
    using single_item_greedy[of v 0 g 45] assms by (simp add: distance_to_self)
  moreover have "is_feasible ?r = (True, ''Route is feasible'')"
    using assms by (simp add: is_feasible_def pickup_stop_def delivery_stop_def)
  moreover have "total_goods_saved ?r = 30"
    using assms by (simp add: total_goods_saved_def)
  ultimately show ?thesis
    by (intro exI[of _ ?r]) (simp add: pickup_stop_def delivery_stop_def)
qed

theorem greedy_scenario_witness:
  "capacity scenario_vehicle = 100 \<and> speed scenario_vehicle = 40
   \<and> current_location scenario_vehicle = loc_A
   \<and> quantity scenario_goods = 30 \<and> pickup_location scenario_goods = loc_A
   \<and> delivery_location scenario_goods = loc_B \<and> distance_to loc_A loc_B = 20
   \<and> time_to_expiry scenario_goods = 60 \<and> pickup_time_window scenario_goods = (0, 120)
   \<and> (\<exists>r. optimize_route scenario_vehicle [scenario_goods] = Inr r
           \<and> stops r = [pickup_stop scenario_goods 0, delivery_stop scenario_goods 45]
           \<and> arrival_time (pickup_stop scenario_goods 0) = 0
           \<and> arrival_time (delivery_stop scenario_goods 45) = 45
           \<and> is_feasible r = (True, ''Route is feasible'')
           \<and> total_goods_saved r = 30)"
proof -
  have h: "capacity scenario_vehicle = 100" "speed scenario_vehicle = 40"
    "current_location scenario_vehicle = loc_A"
    "quantity scenario_goods = 30" "pickup_location scenario_goods = loc_A"
    "delivery_location scenario_goods = loc_B" "distance_to loc_A loc_B = 20"
    "time_to_expiry scenario_goods = 60" "pickup_time_window scenario_goods = (0, 120)"
    by (simp_all add: scenario_vehicle_def scenario_goods_def distance_A_B)
  from greedy_scenario[OF h] h show ?thesis by simp
qed

section \<open>Input validation\<close>




section \<open>Feasibility of the built routes\<close>

text \<open>
  C1 as stated fails: no builder consults the vehicle's capacity.  For a vehicle of capacity
  20 and the scenario's item of quantity 30 the greedy builder returns the two-stop route,
  and the feasibility checker rejects it.
\<close>

theorem capacity_unchecked_counterexample:
  "optimize_route small_vehicle [scenario_goods] =
     Inr \<lparr>vehicle = small_vehicle,
          stops = [pickup_stop scenario_goods 0, delivery_stop scenario_goods 45],
          total_distance = 0, total_time = 60, goods_delivered = [scenario_goods]\<rparr>
   \<and> is_feasible \<lparr>vehicle = small_vehicle,
          stops = [pickup_stop scenario_goods 0, delivery_stop scenario_goods 45],
          total_distance = 0, total_time = 60, goods_delivered = [scenario_goods]\<rparr>
       = (False, ''Capacity exceeded at A'')"
proof (intro conjI)
  show "optimize_route small_vehicle [scenario_goods] =
     Inr \<lparr>vehicle = small_vehicle,
          stops = [pickup_stop scenario_goods 0, delivery_stop scenario_goods 45],
          total_distance = 0, total_time = 60, goods_delivered = [scenario_goods]\<rparr>"
    using single_item_greedy[of small_vehicle 0 scenario_goods 45]
    by (simp add: small_vehicle_def scenario_goods_def distance_to_self distance_A_B)
  show "is_feasible \<lparr>vehicle = small_vehicle,
          stops = [pickup_stop scenario_goods 0, delivery_stop scenario_goods 45],
          total_distance = 0, total_time = 60, goods_delivered = [scenario_goods]\<rparr>
       = (False, ''Capacity exceeded at A'')"
    by (simp add: is_feasible_def pickup_stop_def small_vehicle_def scenario_goods_def loc_A_def)
qed

text \<open>
  C1, amended.  In every route that one of the three builders returns, no delivery stop's
  arrival time exceeds its item's time-to-expiry, so the feasibility checker never reports
  an expiry: its verdict is either (true, "Route is feasible") or a capacity excess at one
  of the route's pickup stops.  The builders do not consult the vehicle's capacity, and
  nothing is said here about when the load fits.
\<close>

theorem built_routes_feasibility:
  assumes "built v gl r"
  shows "(\<forall>s \<in> set (stops r). action s \<noteq> ''pickup'' \<longrightarrow>
            arrival_time s \<le> real_of_int (time_to_expiry (goods s)))
       \<and> (is_feasible r = (True, ''Route is feasible'')
          \<or> (\<exists>s \<in> set (stops r). action s = ''pickup'' \<and>
                is_feasible r = (False, ''Capacity exceeded at '' @ loc_name (location s))))"
proof -
  from assms obtain st where inv: "plan_inv (set gl) v st"
    and r: "r = (route st)\<lparr>total_time := current_time st\<rparr>"
    by (rule built_inv)
  have ss: "stops r = stops (route st)"
    using r by simp
  have e: "\<forall>s \<in> set (stops r). action s \<noteq> ''pickup'' \<longrightarrow>
            arrival_time s \<le> real_of_int (time_to_expiry (goods s))"
    using plan_inv_expiry[OF inv] ss by simp
  have "is_feasible r = (True, ''Route is feasible'')
          \<or> (\<exists>s \<in> set (stops r). action s = ''pickup'' \<and>
                is_feasible r = (False, ''Capacity exceeded at '' @ loc_name (location s)))"
    unfolding is_feasible_def by (rule is_feasible_loop_verdicts[OF e])
  with e show ?thesis by blast
qed

theorem built_routes_feasibility_witness:
  "built scenario_vehicle [scenario_goods] scenario_route
   \<and> delivery_stop scenario_goods 45 \<in> set (stops scenario_route)
   \<and> action (delivery_stop scenario_goods 45) \<noteq> ''pickup''
   \<and> arrival_time (delivery_stop scenario_goods 45)
        \<le> real_of_int (time_to_expiry (goods (delivery_stop scenario_goods 45)))
   \<and> (is_feasible scenario_route = (True, ''Route is feasible'')
      \<or> (\<exists>s \<in> set (stops scenario_route). action s = ''pickup'' \<and>
            is_feasible scenario_route
              = (False, ''Capacity exceeded at '' @ loc_name (location s))))"
proof -
  have m: "delivery_stop scenario_goods 45 \<in> set (stops scenario_route)"
    "action (delivery_stop scenario_goods 45) \<noteq> ''pickup''"
    by (simp_all add: scenario_route_def delivery_stop_def)
  from built_routes_feasibility[OF built_scenario] m built_scenario show ?thesis
    by blast
qed

section \<open>Order and multiplicity of the stops\<close>

text \<open>
  C5.  For every goods list with pairwise-distinct item ids, in every route returned by one
  of the three builders each goods item appears as a pickup stop at most once and as a
  delivery stop at most once, and every delivery stop is preceded, strictly earlier in the
  stop sequence, by a pickup stop of the same item.
\<close>

theorem pickup_precedes_delivery:
  assumes "built v gl r" "distinct (map goods_id gl)"
  shows "(\<forall>g. length (filter (\<lambda>s. action s = ''pickup'' \<and> goods s = g) (stops r)) \<le> 1)
       \<and> (\<forall>g. length (filter (\<lambda>s. action s = ''delivery'' \<and> goods s = g) (stops r)) \<le> 1)
       \<and> (\<forall>j < length (stops r). action (stops r ! j) = ''delivery'' \<longrightarrow>
             (\<exists>i<j. action (stops r ! i) = ''pickup''
                    \<and> goods (stops r ! i) = goods (stops r ! j)))"
proof -
  from assms(1) obtain st where inv: "plan_inv (set gl) v st"
    and r: "r = (route st)\<lparr>total_time := current_time st\<rparr>"
    by (rule built_inv)
  have ss: "stops r = stops (route st)" using r by simp
  show ?thesis
    unfolding ss using plan_inv_once[OF inv] plan_inv_precedence[OF inv assms(2)] by blast
qed

theorem pickup_precedes_delivery_witness:
  "built scenario_vehicle [scenario_goods] scenario_route
   \<and> distinct (map goods_id [scenario_goods])
   \<and> length (filter (\<lambda>s. action s = ''pickup'' \<and> goods s = scenario_goods)
               (stops scenario_route)) \<le> 1
   \<and> length (filter (\<lambda>s. action s = ''delivery'' \<and> goods s = scenario_goods)
               (stops scenario_route)) \<le> 1
   \<and> 1 < length (stops scenario_route)
   \<and> action (stops scenario_route ! 1) = ''delivery''
   \<and> (\<exists>i<1. action (stops scenario_route ! i) = ''pickup''
              \<and> goods (stops scenario_route ! i) = goods (stops scenario_route ! 1))"
proof -
  have d: "distinct (map goods_id [scenario_goods])" by simp
  have j: "1 < length (stops scenario_route)" "action (stops scenario_route ! 1) = ''delivery''"
    by (simp_all add: scenario_route_def delivery_stop_def)
  from pickup_precedes_delivery[OF built_scenario d] j built_scenario d show ?thesis
    by blast
qed

section \<open>Termination and the number of stops\<close>

text \<open>
  C7.  For a goods list of N items each builder's main loop terminates: every iteration
  that does not leave the loop commits exactly one stop and strictly decreases the number
  of item ids not yet picked up plus the number of item ids not yet delivered, so the loop
  has ended, with its final state or with an exception, within 2N + 1 iterations.  In a
  returned route every item has at most one pickup stop and at most one delivery stop,
  there are at most N pickup stops and at most N delivery stops, and so at most 2N stops.
\<close>

theorem builders_terminate_within_2N:
  "(greedy_step v gl st = Inr (Some st') \<longrightarrow>
      (\<exists>s. stops (route st') = stops (route st) @ [s])
      \<and> plan_measure gl st' < plan_measure gl st)
   \<and> (nearest_step v gl st = Inr (Some st') \<longrightarrow>
      (\<exists>s. stops (route st') = stops (route st) @ [s])
      \<and> plan_measure gl st' < plan_measure gl st)
   \<and> greedy_loop_fuel (2 * length gl + 1) v gl st = Some (greedy_loop v gl st)
   \<and> nearest_loop_fuel (2 * length gl + 1) v gl st = Some (nearest_loop v gl st)
   \<and> (built v gl r \<longrightarrow>
      (\<forall>g. length (filter (\<lambda>s. action s = ''pickup'' \<and> goods s = g) (stops r)) \<le> 1)
      \<and> (\<forall>g. length (filter (\<lambda>s. action s = ''delivery'' \<and> goods s = g) (stops r)) \<le> 1)
      \<and> length (pickups (stops r)) \<le> length gl
      \<and> length (deliveries (stops r)) \<le> length gl
      \<and> length (stops r) = length (pickups (stops r)) + length (deliveries (stops r))
      \<and> length (stops r) \<le> 2 * length gl)"
proof (intro conjI impI)
  assume "greedy_step v gl st = Inr (Some st')"
  then show "\<exists>s. stops (route st') = stops (route st) @ [s]"
    and "plan_measure gl st' < plan_measure gl st"
    by (rule greedy_step_stops, rule greedy_step_measure)
next
  assume "nearest_step v gl st = Inr (Some st')"
  then show "\<exists>s. stops (route st') = stops (route st) @ [s]"
    and "plan_measure gl st' < plan_measure gl st"
    by (rule nearest_step_stops, rule nearest_step_measure)
next
  have "plan_measure gl st < 2 * length gl + 1"
    using plan_measure_le[of gl st] by simp
  then show "greedy_loop_fuel (2 * length gl + 1) v gl st = Some (greedy_loop v gl st)"
    and "nearest_loop_fuel (2 * length gl + 1) v gl st = Some (nearest_loop v gl st)"
    by (rule greedy_loop_fuel_enough, rule nearest_loop_fuel_enough)
next
  assume "built v gl r"
  then obtain st where inv: "plan_inv (set gl) v st"
    and r: "r = (route st)\<lparr>total_time := current_time st\<rparr>"
    by (rule built_inv)
  have ss: "stops r = stops (route st)" using r by simp
  from plan_inv_once[OF inv]
  show "\<forall>g. length (filter (\<lambda>s. action s = ''pickup'' \<and> goods s = g) (stops r)) \<le> 1"
    and "\<forall>g. length (filter (\<lambda>s. action s = ''delivery'' \<and> goods s = g) (stops r)) \<le> 1"
    unfolding ss by blast+
  from plan_inv_counts[OF inv] show "length (pickups (stops r)) \<le> length gl"
    "length (deliveries (stops r)) \<le> length gl"
    "length (stops r) = length (pickups (stops r)) + length (deliveries (stops r))"
    "length (stops r) \<le> 2 * length gl"
    unfolding ss by simp_all
qed

theorem builders_terminate_within_2N_witness:
  "greedy_step scenario_vehicle [scenario_goods] (initial_state scenario_vehicle)
     = Inr (Some scenario_state1)
   \<and> nearest_step scenario_vehicle [scenario_goods] (initial_state scenario_vehicle)
     = Inr (Some scenario_state1)
   \<and> (\<exists>s. stops (route scenario_state1)
            = stops (route (initial_state scenario_vehicle)) @ [s])
   \<and> plan_measure [scenario_goods] scenario_state1
       < plan_measure [scenario_goods] (initial_state scenario_vehicle)
   \<and> greedy_loop_fuel (2 * length [scenario_goods] + 1) scenario_vehicle [scenario_goods]
         (initial_state scenario_vehicle)
       = Some (greedy_loop scenario_vehicle [scenario_goods] (initial_state scenario_vehicle))
   \<and> nearest_loop_fuel (2 * length [scenario_goods] + 1) scenario_vehicle [scenario_goods]
         (initial_state scenario_vehicle)
       = Some (nearest_loop scenario_vehicle [scenario_goods] (initial_state scenario_vehicle))
   \<and> built scenario_vehicle [scenario_goods] scenario_route
   \<and> length (filter (\<lambda>s. action s = ''pickup'' \<and> goods s = scenario_goods)
               (stops scenario_route)) \<le> 1
   \<and> length (filter (\<lambda>s. action s = ''delivery'' \<and> goods s = scenario_goods)
               (stops scenario_route)) \<le> 1
   \<and> length (pickups (stops scenario_route)) \<le> length [scenario_goods]
   \<and> length (deliveries (stops scenario_route)) \<le> length [scenario_goods]
   \<and> length (stops scenario_route) \<le> 2 * length [scenario_goods]"
proof -
  from builders_terminate_within_2N[of scenario_vehicle "[scenario_goods]"
      "initial_state scenario_vehicle" scenario_state1 scenario_route]
    scenario_greedy_step scenario_nearest_step built_scenario
  show ?thesis by simp
qed

section \<open>The cached fields of a route\<close>

text \<open>
  C2 at the scenario: the cached \<^verbatim>\<open>total_distance\<close> of the route that the greedy builder
  and the nearest-action builder return is 0, while the legs of its stop sequence, A to A
  and A to B, sum to 20.  The cached \<^verbatim>\<open>total_time\<close> and \<^verbatim>\<open>goods_delivered\<close> agree
  with their recomputation.
\<close>

theorem total_distance_not_maintained:
  "optimize_route scenario_vehicle [scenario_goods] = Inr scenario_route
   \<and> optimize_by_distance scenario_vehicle [scenario_goods] = Inr scenario_route
   \<and> total_distance scenario_route = 0
   \<and> recomputed_distance (current_location scenario_vehicle) (stops scenario_route) = 20
   \<and> total_time scenario_route = recomputed_time (stops scenario_route)
   \<and> goods_delivered scenario_route = recomputed_delivered (stops scenario_route)"
proof -
  have "recomputed_distance (current_location scenario_vehicle) (stops scenario_route) = 20"
    by (simp add: scenario_route_def scenario_vehicle_def scenario_goods_def pickup_stop_def
        delivery_stop_def distance_to_self distance_A_B)
  moreover have "total_distance scenario_route = 0"
    by (simp add: scenario_route_def)
  ultimately show ?thesis
    using scenario_greedy scenario_nearest built_route_caches[OF built_scenario] by simp
qed

section \<open>The ensemble selector\<close>

text \<open>
  C6 at a vehicle at A and one item waiting at B: the selector returns two routes with the
  same stop sequence.  The greedy builder's route and the nearest-action builder's route
  differ only in the cached \<^verbatim>\<open>total_distance\<close> (20 and 0), and the selector compares
  whole routes.
\<close>

theorem selector_keeps_equal_stop_sequences:
  "find_k_shortest_routes scenario_vehicle [remote_goods] 3
     = Inr [remote_route_greedy, remote_route_nearest]
   \<and> stops remote_route_greedy = stops remote_route_nearest
   \<and> total_distance remote_route_greedy = 20
   \<and> total_distance remote_route_nearest = 0"
proof -
  have ne: "remote_route_nearest \<noteq> remote_route_greedy"
    by (simp add: remote_route_nearest_def remote_route_greedy_def)
  have s: "stops remote_route_greedy \<noteq> []" "stops remote_route_nearest \<noteq> []"
    by (simp_all add: remote_route_nearest_def remote_route_greedy_def)
  have k: "total_goods_saved remote_route_greedy = total_goods_saved remote_route_nearest"
    "total_time remote_route_greedy = total_time remote_route_nearest"
    by (simp_all add: remote_route_nearest_def remote_route_greedy_def total_goods_saved_def)
  have "find_k_shortest_routes scenario_vehicle [remote_goods] 3
     = Inr [remote_route_greedy, remote_route_nearest]"
    using ne s k
    by (simp add: find_k_shortest_routes_def remote_greedy remote_nearest
        single_item_time_window sorted_reverse_def slice_to_def Let_def)
  then show ?thesis
    by (simp add: remote_route_nearest_def remote_route_greedy_def)
qed

section \<open>Candidate replacement in the nearest-action builder\<close>



section \<open>Pickups before the window opens\<close>

text \<open>
  C10.  In the greedy and in the nearest-action builder the open bound of the pickup window
  is never read: giving the items any other open bounds changes nothing in the result but
  the open bounds recorded with the items of the route.  So a pickup stop can be committed
  before its window opens: for an item at the vehicle's location whose window is
  [100, 120], both builders commit the pickup stop with arrival time 0.
\<close>

theorem pickup_window_open_ignored:
  "optimize_route v (map (set_window_open f) gl)
     = map_sum (\<lambda>e. e) (retag (set_window_open f)) (optimize_route v gl)
   \<and> optimize_by_distance v (map (set_window_open f) gl)
     = map_sum (\<lambda>e. e) (retag (set_window_open f)) (optimize_by_distance v gl)
   \<and> optimize_route scenario_vehicle [early_goods]
     = Inr \<lparr>vehicle = scenario_vehicle,
            stops = [pickup_stop early_goods 0, delivery_stop early_goods 45],
            total_distance = 0, total_time = 60, goods_delivered = [early_goods]\<rparr>
   \<and> optimize_by_distance scenario_vehicle [early_goods]
     = Inr \<lparr>vehicle = scenario_vehicle,
            stops = [pickup_stop early_goods 0, delivery_stop early_goods 45],
            total_distance = 0, total_time = 60, goods_delivered = [early_goods]\<rparr>
   \<and> action (pickup_stop early_goods 0) = ''pickup''
   \<and> arrival_time (pickup_stop early_goods 0)
       < real_of_int (fst (pickup_time_window (goods (pickup_stop early_goods 0))))"
proof -
  have "action (pickup_stop early_goods 0) = ''pickup''"
    and "arrival_time (pickup_stop early_goods 0)
       < real_of_int (fst (pickup_time_window (goods (pickup_stop early_goods 0))))"
    by (simp_all add: pickup_stop_def early_goods_def)
  then show ?thesis
    using optimize_route_retag optimize_by_distance_retag early_greedy early_nearest
    by simp
qed

end
